theory Spec2Isabelle
  imports Complex_Main "HOL-Library.Sublist"
begin

section \<open>JavaScript values\<close>

text \<open>
  The grid handed to \<open>DataService\<close> holds JavaScript values. A number is a binary64
  value: not-a-number, an infinity, or a finite value, kept here as the exact rational
  it denotes (both zeros are \<open>Fin 0\<close>). \<open>JObj s\<close> stands for a value of any other
  type (an object, an array, ...); \<open>s\<close> is what \<open>String(v)\<close> gives for it.
  A string is a list of code units below 256.
\<close>

datatype jsnum = NaN | PosInf | NegInf | Fin rat

datatype jsval = JUndefined | JNull | JBool bool | JNum jsnum | JStr string | JObj string

text \<open>The truth value of a JavaScript value (\<open>!v\<close> is its negation).\<close>

fun truthy :: "jsval \<Rightarrow> bool" where
  "truthy JUndefined = False"
| "truthy JNull = False"
| "truthy (JBool b) = b"
| "truthy (JNum n) = (n \<noteq> NaN \<and> n \<noteq> Fin 0)"
| "truthy (JStr s) = (s \<noteq> [])"
| "truthy (JObj s) = True"

fun typeof :: "jsval \<Rightarrow> string" where
  "typeof JUndefined = ''undefined''"
| "typeof JNull = ''object''"
| "typeof (JBool b) = ''boolean''"
| "typeof (JNum n) = ''number''"
| "typeof (JStr s) = ''string''"
| "typeof (JObj s) = ''object''"

fun isNaN :: "jsnum \<Rightarrow> bool" where
  "isNaN NaN = True"
| "isNaN n = False"

fun isFinite :: "jsnum \<Rightarrow> bool" where
  "isFinite (Fin q) = True"
| "isFinite n = False"

subsection \<open>Strings\<close>

definition code :: "char \<Rightarrow> nat" where
  "code c = of_char c"

text \<open>White space and line terminators, as \<open>trim\<close>, \<open>parseFloat\<close> and the
  conversion of a string to a number skip them.\<close>

definition isWhiteSpace :: "char \<Rightarrow> bool" where
  "isWhiteSpace c = (code c \<in> {9, 10, 11, 12, 13, 32, 160})"

definition trimStart :: "string \<Rightarrow> string" where
  "trimStart s = dropWhile isWhiteSpace s"

definition trim :: "string \<Rightarrow> string" where
  "trim s = rev (dropWhile isWhiteSpace (rev (dropWhile isWhiteSpace s)))"

definition str_includes :: "string \<Rightarrow> string \<Rightarrow> bool" where
  "str_includes s sub = sublist sub s"

definition startsWith :: "string \<Rightarrow> string \<Rightarrow> bool" where
  "startsWith s pre = prefix pre s"

definition isDigit :: "char \<Rightarrow> bool" where
  "isDigit c = (48 \<le> code c \<and> code c \<le> 57)"

definition isUpper :: "char \<Rightarrow> bool" where
  "isUpper c = (65 \<le> code c \<and> code c \<le> 90)"

text \<open>Matching under the \<open>i\<close> flag compares upper-cased code units; only the
  letters a to z change.\<close>

definition canon :: "char \<Rightarrow> char" where
  "canon c = (if 97 \<le> code c \<and> code c \<le> 122 then char_of (code c - 32) else c)"

subsection \<open>Numeric literals in strings\<close>

definition digitVal :: "char \<Rightarrow> nat" where
  "digitVal c = code c - 48"

definition decVal :: "string \<Rightarrow> nat" where
  "decVal ds = foldl (\<lambda>a c. 10 * a + digitVal c) 0 ds"

definition pow10 :: "int \<Rightarrow> rat" where
  "pow10 e = (if 0 \<le> e then 10 ^ nat e else 1 / 10 ^ nat (- e))"

text \<open>
  Rounding to binary64, to the nearest value with ties to the even significand. For a
  magnitude \<open>a\<close> with \<open>2^e \<le> a < 2^(e+1)\<close> the values are \<open>2^(e-52)\<close> apart; below
  \<open>2^-1022\<close> (the subnormal range) they are \<open>2^-1074\<close> apart; a result of \<open>2^1024\<close> or
  more is an infinity. Both zeros are \<open>Fin 0\<close>.
\<close>

fun bitLength :: "nat \<Rightarrow> nat" where
  "bitLength n = (if n = 0 then 0 else Suc (bitLength (n div 2)))"

declare bitLength.simps [simp del]

text \<open>The exponent \<open>e\<close> with \<open>2^e \<le> a < 2^(e+1)\<close>, for \<open>a > 0\<close>.\<close>

definition floorLog2 :: "rat \<Rightarrow> int" where
  "floorLog2 a =
     (if 1 \<le> a then int (bitLength (nat \<lfloor>a\<rfloor>)) - 1
      else - int (bitLength (nat (\<lceil>1 / a\<rceil> - 1))))"

definition pow2 :: "int \<Rightarrow> rat" where
  "pow2 e = (if 0 \<le> e then 2 ^ nat e else 1 / 2 ^ nat (- e))"

definition roundHalfEven :: "rat \<Rightarrow> int" where
  "roundHalfEven x =
     (let f = \<lfloor>x\<rfloor>; d = x - of_int f
      in if d < 1 / 2 then f
         else if 1 / 2 < d then f + 1
         else if even f then f else f + 1)"

definition roundDouble :: "rat \<Rightarrow> jsnum" where
  "roundDouble q =
     (if q = 0 then Fin 0
      else
        (let a = \<bar>q\<bar>;
             e = max (floorLog2 a) (- 1022);
             ulp = pow2 (e - 52);
             r = of_int (roundHalfEven (a / ulp)) * ulp
         in if 2 ^ 1024 \<le> r then (if q < 0 then NegInf else PosInf)
            else Fin (if q < 0 then - r else r)))"

fun negate :: "jsnum \<Rightarrow> jsnum" where
  "negate NaN = NaN"
| "negate PosInf = NegInf"
| "negate NegInf = PosInf"
| "negate (Fin q) = Fin (- q)"

text \<open>The exponent part \<open>e\<close>, sign, digits, when it is there in full; the exponent
  read and the rest of the string.\<close>

definition scanExponent :: "string \<Rightarrow> int \<times> string" where
  "scanExponent s =
     (case s of
        [] \<Rightarrow> (0, s)
      | c # r \<Rightarrow>
          if c = CHR ''e'' \<or> c = CHR ''E'' then
            (let (sg, r') =
                   (case r of
                      [] \<Rightarrow> (1, r)
                    | d # r2 \<Rightarrow>
                        if d = CHR ''+'' then (1, r2)
                        else if d = CHR ''-'' then (- 1, r2)
                        else (1, r));
                 ds = takeWhile isDigit r'
             in if ds = [] then (0, s)
                else (sg * int (decVal ds), dropWhile isDigit r'))
          else (0, s))"

text \<open>The longest prefix that is an unsigned decimal literal (\<open>Infinity\<close>, or digits
  with an optional fraction and exponent): its exact value and the rest of the string.\<close>

definition scanUnsigned :: "string \<Rightarrow> (rat option \<times> string) option" where
  "scanUnsigned s =
     (if prefix ''Infinity'' s then Some (None, drop 8 s)
      else
        (let ip = takeWhile isDigit s;
             r1 = dropWhile isDigit s;
             (fp, r2) =
               (case r1 of
                  [] \<Rightarrow> ([], r1)
                | c # r \<Rightarrow>
                    if c = CHR ''.'' then (takeWhile isDigit r, dropWhile isDigit r)
                    else ([], r1))
         in if ip = [] \<and> fp = [] then None
            else
              (let (e, r3) = scanExponent r2
               in Some (Some (of_nat (decVal (ip @ fp)) * pow10 (e - int (length fp))), r3))))"

definition scanDecimal :: "string \<Rightarrow> (jsnum \<times> string) option" where
  "scanDecimal s =
     (let (neg, u) =
            (case s of
               [] \<Rightarrow> (False, s)
             | c # r \<Rightarrow>
                 if c = CHR ''+'' then (False, r)
                 else if c = CHR ''-'' then (True, r)
                 else (False, s))
      in case scanUnsigned u of
           None \<Rightarrow> None
         | Some (v, rest) \<Rightarrow>
             (let n = (case v of None \<Rightarrow> PosInf | Some q \<Rightarrow> roundDouble q)
              in Some (if neg then negate n else n, rest)))"

text \<open>\<open>parseFloat\<close> on a string: leading white space is skipped, the longest decimal
  literal is read, anything after it is ignored.\<close>

definition parseFloatStr :: "string \<Rightarrow> jsnum" where
  "parseFloatStr s =
     (case scanDecimal (trimStart s) of None \<Rightarrow> NaN | Some (n, rest) \<Rightarrow> n)"

definition radixDigit :: "nat \<Rightarrow> char \<Rightarrow> nat option" where
  "radixDigit b c =
     (let v = (if isDigit c then code c - 48
               else if 97 \<le> code c \<and> code c \<le> 102 then code c - 87
               else if 65 \<le> code c \<and> code c \<le> 70 then code c - 55
               else 16)
      in if v < b then Some v else None)"

definition radixLiteral :: "nat \<Rightarrow> string \<Rightarrow> jsnum" where
  "radixLiteral b ds =
     (if ds \<noteq> [] \<and> (\<forall>c \<in> set ds. radixDigit b c \<noteq> None)
      then roundDouble (of_nat (foldl (\<lambda>a c. b * a + the (radixDigit b c)) 0 ds))
      else NaN)"

text \<open>The conversion of a string to a number (\<open>Number(s)\<close>, as \<open>isNaN(s)\<close> and
  \<open>isFinite(s)\<close> apply it): white space is trimmed at both ends, the empty string is 0,
  and the whole of what is left has to be one literal.\<close>

definition toNumberStr :: "string \<Rightarrow> jsnum" where
  "toNumberStr s =
     (let t = trim s
      in if t = [] then Fin 0
         else if prefix ''0x'' t \<or> prefix ''0X'' t then radixLiteral 16 (drop 2 t)
         else if prefix ''0o'' t \<or> prefix ''0O'' t then radixLiteral 8 (drop 2 t)
         else if prefix ''0b'' t \<or> prefix ''0B'' t then radixLiteral 2 (drop 2 t)
         else (case scanDecimal t of
                 Some (n, []) \<Rightarrow> n
               | _ \<Rightarrow> NaN))"

text \<open>\<open>String(v)\<close> of a value that is not a number.\<close>

fun toStringNonNum :: "jsval \<Rightarrow> string" where
  "toStringNonNum JUndefined = ''undefined''"
| "toStringNonNum JNull = ''null''"
| "toStringNonNum (JBool b) = (if b then ''true'' else ''false'')"
| "toStringNonNum (JStr s) = s"
| "toStringNonNum (JObj s) = s"
| "toStringNonNum (JNum n) = []"

text \<open>\<open>parseFloat(v)\<close> converts its argument to a string first. The string of a number
  is a decimal literal that reads back as the same number.\<close>

definition parseFloat :: "jsval \<Rightarrow> jsnum" where
  "parseFloat v = (case v of JNum n \<Rightarrow> n | _ \<Rightarrow> parseFloatStr (toStringNonNum v))"

section \<open>Column letters\<close>

text \<open>
  The arithmetic of the two column functions is that of JavaScript numbers: every sum,
  product and quotient is rounded to binary64, not-a-number and the infinities go
  through. The second operand is always a finite constant, positive where it multiplies
  or divides. The remainder \<open>%\<close> has the sign of the dividend and is exact.
\<close>

fun jsAdd :: "jsnum \<Rightarrow> rat \<Rightarrow> jsnum" where
  "jsAdd (Fin a) c = roundDouble (a + c)"
| "jsAdd n c = n"

fun jsMul :: "jsnum \<Rightarrow> rat \<Rightarrow> jsnum" where
  "jsMul (Fin a) c = roundDouble (a * c)"
| "jsMul n c = n"

fun jsDiv :: "jsnum \<Rightarrow> rat \<Rightarrow> jsnum" where
  "jsDiv (Fin a) c = roundDouble (a / c)"
| "jsDiv n c = n"

definition truncInt :: "rat \<Rightarrow> int" where
  "truncInt a = (if 0 \<le> a then \<lfloor>a\<rfloor> else \<lceil>a\<rceil>)"

fun jsRem :: "jsnum \<Rightarrow> rat \<Rightarrow> jsnum" where
  "jsRem (Fin a) c = Fin (a - c * of_int (truncInt (a / c)))"
| "jsRem n c = NaN"

fun jsFloor :: "jsnum \<Rightarrow> jsnum" where
  "jsFloor (Fin a) = Fin (of_int \<lfloor>a\<rfloor>)"
| "jsFloor n = n"

fun isPositive :: "jsnum \<Rightarrow> bool" where
  "isPositive (Fin a) = (0 < a)"
| "isPositive PosInf = True"
| "isPositive n = False"

text \<open>\<open>String.fromCharCode(v)\<close>: the code unit is \<open>v\<close> cut to a whole number, modulo
  \<open>2^16\<close>, and 0 when \<open>v\<close> is not finite. In the loop below it is under 92.\<close>

fun fromCharCode :: "jsnum \<Rightarrow> char" where
  "fromCharCode (Fin a) = char_of (truncInt a mod 65536)"
| "fromCharCode n = char_of (0::int)"

text \<open>
  The loop of \<open>getColumnLetter\<close>. On \<open>Infinity\<close> the number stays infinite and the loop
  does not come to an end: no string is returned, the result is \<open>None\<close>.
\<close>

partial_function (option) getColumnLetterLoop :: "jsnum \<Rightarrow> string \<Rightarrow> string option" where
  "getColumnLetterLoop columnNumber columnLetter =
     (if isPositive columnNumber then
        getColumnLetterLoop (jsFloor (jsDiv (jsAdd columnNumber (- 1)) 26))
          (fromCharCode (jsAdd (jsRem (jsAdd columnNumber (- 1)) 26) 65) # columnLetter)
      else Some columnLetter)"

definition getColumnLetter :: "jsnum \<Rightarrow> string option" where
  "getColumnLetter columnNumber = getColumnLetterLoop columnNumber []"

definition getColumnNumber :: "string \<Rightarrow> jsnum" where
  "getColumnNumber columnLetter =
     foldl (\<lambda>columnNumber c. jsAdd (jsMul columnNumber 26) (of_int (of_char c - 64)))
       (Fin 0) columnLetter"

section \<open>Cell types and the type histogram\<close>

datatype cell_type = Empty | Boolean | Number | Currency | Percentage | Date | Text

type_synonym grid = "jsval list list"

text \<open>
  \<open>detectCellType(value, format)\<close>. The format is a number-format string or absent
  (\<open>None\<close> for \<open>null\<close> and \<open>undefined\<close>). What \<open>Date.parse\<close> accepts beyond the ISO
  format is left to the implementation, so it is a parameter, \<open>dateParse\<close>.
\<close>

definition detectCellType :: "(string \<Rightarrow> jsnum) \<Rightarrow> jsval \<Rightarrow> string option \<Rightarrow> cell_type" where
  "detectCellType dateParse v format =
     (if v = JNull \<or> v = JUndefined \<or> v = JStr [] then Empty
      else
        (case v of
           JBool b \<Rightarrow> Boolean
         | JNum n \<Rightarrow>
             (case format of
                None \<Rightarrow> Number
              | Some f \<Rightarrow>
                  if f = [] then Number
                  else if str_includes f ''$'' \<or> str_includes f ''currency'' then Currency
                  else if str_includes f ''%'' then Percentage
                  else if str_includes f ''d'' \<or> str_includes f ''m'' \<or> str_includes f ''y''
                    then Date
                  else Number)
         | JStr s \<Rightarrow>
             if \<not> isNaN (dateParse s) then Date
             else if \<not> isNaN (parseFloatStr s) \<and> isFinite (toNumberStr s) then Number
             else Text
         | _ \<Rightarrow> Text))"

text \<open>\<open>numberFormats && numberFormats[rowIndex] && numberFormats[rowIndex][colIndex]\<close>\<close>

definition formatAt :: "string list list option \<Rightarrow> nat \<Rightarrow> nat \<Rightarrow> string option" where
  "formatAt numberFormats rowIndex colIndex =
     (case numberFormats of
        None \<Rightarrow> None
      | Some g \<Rightarrow>
          if rowIndex < length g \<and> colIndex < length (g ! rowIndex)
          then Some (g ! rowIndex ! colIndex) else None)"

text \<open>The counter object \<open>types\<close>: its own properties in order, each with its count.\<close>

type_synonym type_counts = "(cell_type \<times> nat) list"

definition initialTypes :: type_counts where
  "initialTypes =
     [(Text, 0), (Number, 0), (Date, 0), (Currency, 0), (Percentage, 0), (Boolean, 0)]"

definition hasOwnProperty :: "type_counts \<Rightarrow> cell_type \<Rightarrow> bool" where
  "hasOwnProperty types t = (t \<in> set (map fst types))"

definition increment :: "type_counts \<Rightarrow> cell_type \<Rightarrow> type_counts" where
  "increment types t = map (\<lambda>(k, n). if k = t then (k, n + 1) else (k, n)) types"

definition countCell ::
  "(string \<Rightarrow> jsnum) \<Rightarrow> string list list option \<Rightarrow> nat \<Rightarrow> nat \<times> jsval \<Rightarrow> type_counts \<Rightarrow> type_counts"
where
  "countCell dateParse numberFormats rowIndex = (\<lambda>(colIndex, cell) types.
     (let format = formatAt numberFormats rowIndex colIndex;
          detectedType = detectCellType dateParse cell format
      in if hasOwnProperty types detectedType then increment types detectedType else types))"

definition analyzeDataTypes ::
  "(string \<Rightarrow> jsnum) \<Rightarrow> grid \<Rightarrow> string list list option \<Rightarrow> type_counts"
where
  "analyzeDataTypes dateParse rawValues numberFormats =
     fold (\<lambda>(rowIndex, row) types.
             fold (countCell dateParse numberFormats rowIndex) (enumerate 0 row) types)
          (enumerate 0 rawValues) initialTypes"

section \<open>Formulas and number formats\<close>

record formula_analysis =
  fa_hasFormulas :: bool
  fa_formulaCount :: nat
  fa_types :: "string list"

record format_analysis =
  fmt_hasFormatting :: bool
  fmt_types :: "string list"

text \<open>Adding to a \<open>Set\<close>, which keeps the order of first insertion.\<close>

definition setAdd :: "'a list \<Rightarrow> 'a \<Rightarrow> 'a list" where
  "setAdd xs x = (if x \<in> set xs then xs else xs @ [x])"

text \<open>The matches of \<open>/([A-Z]+)\(/g\<close>, each without its parenthesis: every maximal run
  of capital letters that an opening parenthesis follows.\<close>

function matchFunctionNames :: "string \<Rightarrow> string list" where
  "matchFunctionNames [] = []"
| "matchFunctionNames (c # cs) =
     (if isUpper c then
        (case dropWhile isUpper cs of
           [] \<Rightarrow> []
         | p # rest \<Rightarrow>
             if p = CHR ''('' then (c # takeWhile isUpper cs) # matchFunctionNames rest
             else matchFunctionNames rest)
      else matchFunctionNames cs)"
  by pat_completeness auto
termination
proof (relation "measure length")
  fix c :: char and cs p rest
  assume "dropWhile isUpper cs = p # rest"
  then have "length (p # rest) \<le> length cs"
    by (metis length_dropWhile_le)
  then show "(rest, c # cs) \<in> measure length" by simp
  then show "(rest, c # cs) \<in> measure length" .
qed auto

definition analyzeFormulas :: "grid option \<Rightarrow> formula_analysis" where
  "analyzeFormulas rawFormulas =
     (case rawFormulas of
        None \<Rightarrow> \<lparr>fa_hasFormulas = False, fa_formulaCount = 0, fa_types = []\<rparr>
      | Some g \<Rightarrow>
          (let (formulaCount, formulaTypes) =
                 fold (\<lambda>row acc.
                         fold (\<lambda>cell (formulaCount, formulaTypes).
                                 (case cell of
                                    JStr s \<Rightarrow>
                                      if startsWith s ''=''
                                      then (formulaCount + 1,
                                            fold (\<lambda>m ts. setAdd ts m) (matchFunctionNames s)
                                              formulaTypes)
                                      else (formulaCount, formulaTypes)
                                  | _ \<Rightarrow> (formulaCount, formulaTypes)))
                              row acc)
                      g (0, [])
           in \<lparr>fa_hasFormulas = (formulaCount > 0), fa_formulaCount = formulaCount,
                fa_types = formulaTypes\<rparr>))"

definition analyzeNumberFormats :: "string list list option \<Rightarrow> format_analysis" where
  "analyzeNumberFormats numberFormats =
     (case numberFormats of
        None \<Rightarrow> \<lparr>fmt_hasFormatting = False, fmt_types = []\<rparr>
      | Some g \<Rightarrow>
          (let formatTypes =
                 fold (\<lambda>row acc.
                         fold (\<lambda>format ts.
                                 if format \<noteq> [] \<and> format \<noteq> ''General''
                                 then setAdd ts format else ts)
                              row acc)
                      g []
           in \<lparr>fmt_hasFormatting = (length formatTypes > 0), fmt_types = formatTypes\<rparr>))"

section \<open>Cleaned cells\<close>

text \<open>
  \<open>cleanData\<close> holds, for a \<open>null\<close>, \<open>undefined\<close> or string cell, a string (trimmed),
  and for any other cell an object that wraps the raw value. \<open>isFormula\<close> is kept as the
  truth value of the source's \<open>&&\<close> chain, the only way it is read. The field \<open>value\<close>
  of the source is \<open>cellValue\<close> here.
\<close>

record cell_info =
  cellValue :: jsval
  originalType :: string
  format :: "string option"
  isFormula :: bool
  detectedType :: cell_type

datatype clean_cell = CStr string | CObj cell_info

definition formulaFlag :: "grid option \<Rightarrow> nat \<Rightarrow> nat \<Rightarrow> bool" where
  "formulaFlag rawFormulas rowIndex colIndex =
     (case rawFormulas of
        None \<Rightarrow> False
      | Some g \<Rightarrow>
          if rowIndex < length g \<and> colIndex < length (g ! rowIndex) then
            (case g ! rowIndex ! colIndex of
               JStr s \<Rightarrow> s \<noteq> [] \<and> startsWith s ''=''
             | _ \<Rightarrow> False)
          else False)"

definition cleanCell ::
  "(string \<Rightarrow> jsnum) \<Rightarrow> grid option \<Rightarrow> string list list option \<Rightarrow> nat \<Rightarrow> nat \<times> jsval \<Rightarrow> clean_cell"
where
  "cleanCell dateParse rawFormulas numberFormats rowIndex = (\<lambda>(colIndex, cell).
     (case cell of
        JNull \<Rightarrow> CStr []
      | JUndefined \<Rightarrow> CStr []
      | JStr s \<Rightarrow> CStr (trim s)
      | _ \<Rightarrow>
          (let format = formatAt numberFormats rowIndex colIndex
           in CObj \<lparr>cellValue = cell, originalType = typeof cell, format = format,
                    isFormula = formulaFlag rawFormulas rowIndex colIndex,
                    detectedType = detectCellType dateParse cell format\<rparr>)))"

definition cleanGrid ::
  "(string \<Rightarrow> jsnum) \<Rightarrow> grid \<Rightarrow> grid option \<Rightarrow> string list list option \<Rightarrow> clean_cell list list"
where
  "cleanGrid dateParse rawValues rawFormulas numberFormats =
     map (\<lambda>(rowIndex, row).
            map (cleanCell dateParse rawFormulas numberFormats rowIndex) (enumerate 0 row))
         (enumerate 0 rawValues)"

text \<open>\<open>typeof cell === 'object' ? cell.value : cell\<close>\<close>

fun unwrap :: "clean_cell \<Rightarrow> jsval" where
  "unwrap (CObj c) = cellValue c"
| "unwrap (CStr s) = JStr s"

section \<open>Header row\<close>

text \<open>\<open>/^[1-4]Q\d{2}$/i.test(s)\<close>\<close>

definition quarterPattern :: "string \<Rightarrow> bool" where
  "quarterPattern s =
     (case s of
        [a, b, c, d] \<Rightarrow>
          49 \<le> code a \<and> code a \<le> 52 \<and> canon b = CHR ''Q'' \<and> isDigit c \<and> isDigit d
      | _ \<Rightarrow> False)"

definition isQuarterCell :: "clean_cell \<Rightarrow> bool" where
  "isQuarterCell cell = (case unwrap cell of JStr s \<Rightarrow> quarterPattern s | _ \<Rightarrow> False)"

definition isTextCell :: "clean_cell \<Rightarrow> bool" where
  "isTextCell cell =
     (case unwrap cell of
        JStr s \<Rightarrow> length s > 0 \<and> isNaN (toNumberStr s)
      | _ \<Rightarrow> False)"

function findHeaderRowLoop :: "clean_cell list list \<Rightarrow> nat \<Rightarrow> nat" where
  "findHeaderRowLoop cleanData i =
     (if i < min 5 (length cleanData) then
        (let row = cleanData ! i;
             quarterlyPattern = length (filter isQuarterCell row)
         in if quarterlyPattern \<ge> 2 then i
            else
              (let textCellCount = length (filter isTextCell row)
               in if textCellCount \<ge> 3 then i
                  else findHeaderRowLoop cleanData (i + 1)))
      else 0)"
  by pat_completeness auto
termination
  by (relation "measure (\<lambda>(cleanData, i). min 5 (length cleanData) - i)") auto

declare findHeaderRowLoop.simps [simp del]

definition findHeaderRow :: "clean_cell list list \<Rightarrow> nat" where
  "findHeaderRow cleanData = findHeaderRowLoop cleanData 0"

section \<open>Row labels\<close>

text \<open>A pattern that is an alternation of literal words, under the \<open>i\<close> flag: at the
  start of the string (\<open>^\<close>), or anywhere in it.\<close>

definition testAtStart :: "string list \<Rightarrow> string \<Rightarrow> bool" where
  "testAtStart words s = list_ex (\<lambda>w. prefix (map canon w) (map canon s)) words"

definition testAnywhere :: "string list \<Rightarrow> string \<Rightarrow> bool" where
  "testAnywhere words s = list_ex (\<lambda>w. sublist (map canon w) (map canon s)) words"

definition totalKeywords :: "string list" where
  "totalKeywords = [''total'', ''sum'', ''grand total'', ''net'', ''aggregate'', ''consolidated'']"

definition subtotalKeywords :: "string list" where
  "subtotalKeywords = [''subtotal'', ''sub-total'', ''sub total'']"

definition keyPatterns :: "string list list" where
  "keyPatterns =
     [[''revenue'', ''sales'', ''income''],
      [''expense'', ''cost'', ''opex'', ''capex''],
      [''profit'', ''loss'', ''ebitda'', ''ebit''],
      [''cash'', ''flow'', ''fcf''],
      [''margin'', ''ratio''],
      [''growth'', ''change'']]"

definition isLikelyTotalRow :: "jsval \<Rightarrow> bool" where
  "isLikelyTotalRow label =
     (case label of JStr s \<Rightarrow> testAtStart totalKeywords (trim s) | _ \<Rightarrow> False)"

definition isLikelySubtotalRow :: "jsval \<Rightarrow> bool" where
  "isLikelySubtotalRow label =
     (case label of JStr s \<Rightarrow> testAnywhere subtotalKeywords (trim s) | _ \<Rightarrow> False)"

definition isKeyFinancialRow :: "jsval \<Rightarrow> bool" where
  "isKeyFinancialRow label =
     (case label of
        JStr s \<Rightarrow> list_ex (\<lambda>pattern. testAnywhere pattern s) keyPatterns
      | _ \<Rightarrow> False)"

definition categorizeRowLabel :: "jsval \<Rightarrow> string" where
  "categorizeRowLabel label = (case label of JStr s \<Rightarrow> trim s | _ \<Rightarrow> ''data'')"

text \<open>\<open>headers.some(h => /^[1-4]Q\d{2}$/i.test(String(h)))\<close>; the string of a number
  has no letter Q in its second place.\<close>

definition hasQuarterlyPattern :: "jsval list \<Rightarrow> bool" where
  "hasQuarterlyPattern headers =
     list_ex (\<lambda>h. case h of JNum n \<Rightarrow> False | _ \<Rightarrow> quarterPattern (toStringNonNum h)) headers"

section \<open>Rows and quarterly series\<close>

text \<open>
  The objects \<open>rowData\<close>, a point of \<open>quarters\<close> and the result of
  \<open>extractQuarterlyData\<close>. Where two objects of the source share a field name, or the
  name is reserved, the field is renamed: in \<open>row_data\<close>, \<open>values\<close> is \<open>rowValues\<close> and
  \<open>dataTypes\<close> is \<open>cellDataTypes\<close>; in a point, \<open>value\<close> is \<open>pointValue\<close>; in a series,
  \<open>label\<close> is \<open>seriesLabel\<close> and \<open>isTotal\<close> is \<open>seriesIsTotal\<close>.
\<close>

record row_data =
  rowIndex :: nat
  label :: jsval
  rowValues :: "jsval list"
  originalRow :: "clean_cell list"
  isTotal :: bool
  isSubtotal :: bool
  category :: string
  hasFormulas :: bool
  cellDataTypes :: "cell_type list"

record quarter_point =
  quarter :: string
  pointValue :: jsval
  columnIndex :: nat

record quarterly_row =
  seriesLabel :: jsval
  labelType :: string
  quarters :: "quarter_point list"
  seriesIsTotal :: bool

text \<open>\<open>parseFloat(value) || value\<close>\<close>

definition numericOrRaw :: "jsval \<Rightarrow> jsval" where
  "numericOrRaw v = (if truthy (JNum (parseFloat v)) then JNum (parseFloat v) else v)"

text \<open>\<open>rowData.values[index - 1]\<close>; outside the array, also at index \<open>-1\<close>, it is
  \<open>undefined\<close>.\<close>

definition valueBefore :: "jsval list \<Rightarrow> nat \<Rightarrow> jsval" where
  "valueBefore vs index =
     (if 1 \<le> index \<and> index - 1 < length vs then vs ! (index - 1) else JUndefined)"

definition quarterStep :: "row_data \<Rightarrow> nat \<times> jsval \<Rightarrow> quarter_point list \<Rightarrow> quarter_point list" where
  "quarterStep rowData = (\<lambda>(index, header) quarters.
     (case header of
        JStr h \<Rightarrow>
          if quarterPattern h then
            (let v = valueBefore (rowValues rowData) index
             in if v \<noteq> JNull \<and> v \<noteq> JUndefined \<and> v \<noteq> JStr []
                then quarters @ [\<lparr>quarter = h, pointValue = numericOrRaw v, columnIndex = index\<rparr>]
                else quarters)
          else quarters
      | _ \<Rightarrow> quarters))"

definition extractQuarterlyData :: "row_data \<Rightarrow> jsval list \<Rightarrow> quarterly_row" where
  "extractQuarterlyData rowData headers =
     (let quarters = fold (quarterStep rowData) (enumerate 0 headers) []
      in \<lparr>seriesLabel = label rowData, labelType = category rowData, quarters = quarters,
          seriesIsTotal = isTotal rowData\<rparr>)"

section \<open>Table structure\<close>

text \<open>The result object; its field \<open>type\<close> is \<open>rtype\<close> here.\<close>

record table =
  rtype :: string
  headers :: "jsval list"
  columnHeaders :: "jsval list"
  dataRows :: "row_data list"
  keyRows :: "row_data list"
  totalRows :: "row_data list"
  quarterlyData :: "quarterly_row list"
  rowLabels :: "jsval list"
  formulaAnalysis :: formula_analysis
  formatAnalysis :: format_analysis
  dataTypes :: type_counts

text \<open>The result is one of two object shapes: \<open>{type: 'empty', headers, dataRows,
  keyRows}\<close>, or the full table.\<close>

datatype structured_data =
  EmptyTable "jsval list" "row_data list" "row_data list"
| FinancialTable table

fun typeOf :: "structured_data \<Rightarrow> string" where
  "typeOf (EmptyTable h d k) = ''empty''"
| "typeOf (FinancialTable t) = rtype t"

fun headersOf :: "structured_data \<Rightarrow> jsval list" where
  "headersOf (EmptyTable h d k) = h"
| "headersOf (FinancialTable t) = headers t"

fun dataRowsOf :: "structured_data \<Rightarrow> row_data list" where
  "dataRowsOf (EmptyTable h d k) = d"
| "dataRowsOf (FinancialTable t) = dataRows t"

fun keyRowsOf :: "structured_data \<Rightarrow> row_data list" where
  "keyRowsOf (EmptyTable h d k) = k"
| "keyRowsOf (FinancialTable t) = keyRows t"

text \<open>The empty shape has no \<open>totalRows\<close> property.\<close>

fun totalRowsOf :: "structured_data \<Rightarrow> row_data list" where
  "totalRowsOf (EmptyTable h d k) = []"
| "totalRowsOf (FinancialTable t) = totalRows t"

datatype js_error = TypeError

text \<open>\<open>row[0]\<close> unwrapped; \<open>undefined\<close> for a row with no cell.\<close>

definition rowLabelOf :: "clean_cell list \<Rightarrow> jsval" where
  "rowLabelOf row = (case row of [] \<Rightarrow> JUndefined | c # cs \<Rightarrow> unwrap c)"

definition makeRowData :: "nat \<Rightarrow> clean_cell list \<Rightarrow> row_data" where
  "makeRowData i row =
     (let rowLabel = rowLabelOf row;
          values = map unwrap (drop 1 row)
      in \<lparr>rowIndex = i, label = rowLabel, rowValues = values, originalRow = row,
          isTotal = isLikelyTotalRow rowLabel,
          isSubtotal = isLikelySubtotalRow rowLabel,
          category = categorizeRowLabel rowLabel,
          hasFormulas = list_ex (\<lambda>cell. case cell of CObj c \<Rightarrow> isFormula c | CStr s \<Rightarrow> False) row,
          cellDataTypes = map (\<lambda>cell. case cell of CObj c \<Rightarrow> detectedType c | CStr s \<Rightarrow> Text) row\<rparr>)"

text \<open>One turn of the loop over \<open>cleanData\<close>.\<close>

definition processRow :: "nat \<times> clean_cell list \<Rightarrow> table \<Rightarrow> table" where
  "processRow = (\<lambda>(i, row) result.
     (let rowLabel = rowLabelOf row
      in if \<not> truthy rowLabel \<or> rowLabel = JStr [] then result
         else
           (let rowData = makeRowData i row;
                result = result\<lparr>dataRows := dataRows result @ [rowData],
                                rowLabels := rowLabels result @ [rowLabel]\<rparr>;
                result = (if isTotal rowData \<or> isKeyFinancialRow rowLabel
                          then result\<lparr>keyRows := keyRows result @ [rowData]\<rparr> else result);
                result = (if isTotal rowData
                          then result\<lparr>totalRows := totalRows result @ [rowData]\<rparr> else result)
            in if hasQuarterlyPattern (columnHeaders result) then
                 (let quarterlyRow = extractQuarterlyData rowData (columnHeaders result)
                  in if length (quarters quarterlyRow) > 0
                     then result\<lparr>quarterlyData := quarterlyData result @ [quarterlyRow]\<rparr>
                     else result)
               else result)))"

text \<open>
  \<open>analyzeAdvancedTableStructure\<close>. \<open>findHeaderRow\<close> never returns \<open>-1\<close>, so the test
  \<open>headerRowIndex !== -1\<close> always passes; reading \<open>cleanData[headerRowIndex]\<close> outside
  the array would give \<open>undefined\<close>, whose \<open>map\<close> raises a TypeError.
\<close>

definition analyzeAdvancedTableStructure ::
  "(string \<Rightarrow> jsnum) \<Rightarrow> grid option \<Rightarrow> grid option \<Rightarrow> string list list option
     \<Rightarrow> js_error + structured_data"
where
  "analyzeAdvancedTableStructure dateParse rawValues rawFormulas numberFormats =
     (case rawValues of
        None \<Rightarrow> Inr (EmptyTable [] [] [])
      | Some rv \<Rightarrow>
          if length rv = 0 then Inr (EmptyTable [] [] [])
          else
            (let result =
                   \<lparr>rtype = ''advanced_financial_table'', headers = [], columnHeaders = [],
                    dataRows = [], keyRows = [], totalRows = [], quarterlyData = [],
                    rowLabels = [],
                    formulaAnalysis = analyzeFormulas rawFormulas,
                    formatAnalysis = analyzeNumberFormats numberFormats,
                    dataTypes = analyzeDataTypes dateParse rv numberFormats\<rparr>;
                 cleanData = cleanGrid dateParse rv rawFormulas numberFormats;
                 headerRowIndex = findHeaderRow cleanData
             in if headerRowIndex < length cleanData then
                  (let result = result\<lparr>columnHeaders := map unwrap (cleanData ! headerRowIndex)\<rparr>
                   in Inr (FinancialTable (fold processRow (enumerate 0 cleanData) result)))
                else Inl TypeError))"

section \<open>Choosing the range to analyse\<close>

text \<open>
  A loaded range: its address, its size and its three grids. \<open>originalSize\<close> is the
  mark \<open>_isSampled\<close>/\<open>_originalSize\<close> that sampling leaves on the range it returns.
  The worksheet gives its used range and resolves an address to a range.
\<close>

record range =
  address :: string
  rowCount :: nat
  columnCount :: nat
  rangeValues :: grid
  rangeFormulas :: grid
  numberFormat :: "string list list"
  originalSize :: "(nat \<times> nat) option"

record worksheet =
  wsName :: string
  getUsedRange :: "range option"
  getRange :: "string \<Rightarrow> range"

definition MAX_ANALYSIS_CELLS :: nat where
  "MAX_ANALYSIS_CELLS = 100000"

text \<open>The decimal string of a count, as a template literal writes it.\<close>

fun showNat :: "nat \<Rightarrow> string" where
  "showNat n =
     (if n < 10 then [char_of (48 + n)]
      else showNat (n div 10) @ [char_of (48 + n mod 10)])"

declare showNat.simps [simp del]

text \<open>
  \<open>getSmartSampledRange\<close>. The list \<open>ranges\<close> of header, middle and footer addresses that
  the source builds is never read, and is left out. A worksheet has at most 1,048,576
  rows and 16,384 columns, so the counts and their product are whole numbers far below
  \<open>2^53\<close>, where the product is exact and \<open>Math.floor(a / b)\<close> is the integer quotient;
  \<open>100000 / 0\<close> is \<open>Infinity\<close>, which \<open>Math.min\<close> caps at the column count. The result
  is \<open>None\<close> when \<open>getColumnLetter\<close> returns no string.
\<close>

definition getSmartSampledRange :: "worksheet \<Rightarrow> range \<Rightarrow> range option" where
  "getSmartSampledRange ws originalRange =
     (let totalRows = rowCount originalRange;
          totalCols = columnCount originalRange;
          maxSampleRows = min (nat \<lfloor>sqrt (real MAX_ANALYSIS_CELLS)\<rfloor>) totalRows;
          maxSampleCols = (if maxSampleRows = 0 then totalCols
                           else min (MAX_ANALYSIS_CELLS div maxSampleRows) totalCols);
          sampleCols = min maxSampleCols totalCols
      in case getColumnLetter (Fin (of_nat sampleCols)) of
           None \<Rightarrow> None
         | Some simplifiedEndCol \<Rightarrow>
             (let simplifiedRange =
                    getRange ws (''A1:'' @ simplifiedEndCol @ showNat maxSampleRows)
              in Some (simplifiedRange\<lparr>originalSize := Some (totalRows, totalCols)\<rparr>)))"

text \<open>
  \<open>readCurrentWorksheetDataEnhanced\<close>, from the range it is given to the analysis of
  the range it keeps. The metadata of tables, charts and names, the other sheets and the
  summary sentence are not part of the model. \<open>analysed\<close> is the range whose address,
  size and grids the result reports; the empty result has none, and has neither flag
  (both are \<open>False\<close> here).
\<close>

record worksheet_data =
  worksheetName :: string
  analysed :: "range option"
  structuredData :: structured_data
  isSelection :: bool
  isSampled :: bool

text \<open>\<open>selectedRange.values[0][0]\<close>\<close>

definition firstValue :: "grid \<Rightarrow> js_error + jsval" where
  "firstValue g =
     (case g of
        [] \<Rightarrow> Inl TypeError
      | row # rows \<Rightarrow> (case row of [] \<Rightarrow> Inr JUndefined | v # vs \<Rightarrow> Inr v))"

definition selectionIsValid :: "range \<Rightarrow> js_error + bool" where
  "selectionIsValid selectedRange =
     (if rowCount selectedRange > 1 \<or> columnCount selectedRange > 1 then Inr True
      else (case firstValue (rangeValues selectedRange) of
              Inl e \<Rightarrow> Inl e
            | Inr v \<Rightarrow> Inr (v \<noteq> JNull \<and> v \<noteq> JStr [])))"

text \<open>The range to analyse, with the flags \<open>isSelection\<close> and \<open>isSampled\<close>; \<open>None\<close>
  when sampling does not return.\<close>

definition chooseRange ::
  "worksheet \<Rightarrow> range \<Rightarrow> bool \<Rightarrow> (js_error + (range option \<times> bool \<times> bool)) option"
where
  "chooseRange ws selectedRange shouldUseSelection =
     (case (if shouldUseSelection then selectionIsValid selectedRange else Inr False) of
        Inl e \<Rightarrow> Some (Inl e)
      | Inr useSelected \<Rightarrow>
          if useSelected then
            (let totalCells = rowCount selectedRange * columnCount selectedRange
             in if totalCells \<le> MAX_ANALYSIS_CELLS
                then Some (Inr (Some selectedRange, True, False))
                else (case getSmartSampledRange ws selectedRange of
                        None \<Rightarrow> None
                      | Some sampled \<Rightarrow> Some (Inr (Some sampled, True, True))))
          else
            (case getUsedRange ws of
               None \<Rightarrow> Some (Inr (None, False, False))
             | Some usedRange \<Rightarrow>
                 (let totalCells = rowCount usedRange * columnCount usedRange
                  in if totalCells \<le> MAX_ANALYSIS_CELLS
                     then Some (Inr (Some usedRange, False, False))
                     else (case getSmartSampledRange ws usedRange of
                             None \<Rightarrow> None
                           | Some sampled \<Rightarrow> Some (Inr (Some sampled, False, True))))))"

definition emptyWorksheetData :: "worksheet \<Rightarrow> worksheet_data" where
  "emptyWorksheetData ws =
     \<lparr>worksheetName = wsName ws, analysed = None, structuredData = EmptyTable [] [] [],
      isSelection = False, isSampled = False\<rparr>"

definition readCurrentWorksheetDataEnhanced ::
  "(string \<Rightarrow> jsnum) \<Rightarrow> worksheet \<Rightarrow> range \<Rightarrow> bool \<Rightarrow> (js_error + worksheet_data) option"
where
  "readCurrentWorksheetDataEnhanced dateParse ws selectedRange shouldUseSelection =
     (case chooseRange ws selectedRange shouldUseSelection of
        None \<Rightarrow> None
      | Some (Inl e) \<Rightarrow> Some (Inl e)
      | Some (Inr (None, sel, sampled)) \<Rightarrow> Some (Inr (emptyWorksheetData ws))
      | Some (Inr (Some r, sel, sampled)) \<Rightarrow>
          if rowCount r = 0 \<or> columnCount r = 0 then Some (Inr (emptyWorksheetData ws))
          else
            (case analyzeAdvancedTableStructure dateParse (Some (rangeValues r))
                    (Some (rangeFormulas r)) (Some (numberFormat r)) of
               Inl e \<Rightarrow> Some (Inl e)
             | Inr sd \<Rightarrow>
                 Some (Inr \<lparr>worksheetName = wsName ws, analysed = Some r, structuredData = sd,
                            isSelection = sel, isSampled = sampled\<rparr>)))"

section \<open>Notions used to state the properties\<close>

text \<open>The tags \<open>detectCellType\<close> gives to the cells of a grid, row by row, each cell
  with the format at its own position.\<close>

definition cellTags :: "(string \<Rightarrow> jsnum) \<Rightarrow> grid \<Rightarrow> string list list option \<Rightarrow> cell_type list" where
  "cellTags dateParse rawValues numberFormats =
     concat (map (\<lambda>(rowIndex, row).
                    map (\<lambda>(colIndex, cell).
                           detectCellType dateParse cell (formatAt numberFormats rowIndex colIndex))
                        (enumerate 0 row))
                 (enumerate 0 rawValues))"

text \<open>A \<open>Date.parse\<close> that reads no string as a date, for evaluating examples.\<close>

definition noDates :: "string \<Rightarrow> jsnum" where
  "noDates s = NaN"

text \<open>The two header rules on a row of cleaned cells: at least two quarter labels, or
  at least three strings that are not empty and are not numbers.\<close>

definition headerRule :: "clean_cell list \<Rightarrow> bool" where
  "headerRule row =
     (2 \<le> length (filter isQuarterCell row) \<or> 3 \<le> length (filter isTextCell row))"

text \<open>The label the row loop reads from a raw row: the value in column 0 after
  cleaning (\<open>null\<close> and \<open>undefined\<close> as the empty string, a string trimmed), and
  \<open>undefined\<close> when the row has no cell.\<close>

definition labelOfRaw :: "jsval list \<Rightarrow> jsval" where
  "labelOfRaw row =
     (case row of
        [] \<Rightarrow> JUndefined
      | v # vs \<Rightarrow>
          (case v of
             JNull \<Rightarrow> JStr []
           | JUndefined \<Rightarrow> JStr []
           | JStr s \<Rightarrow> JStr (trim s)
           | _ \<Rightarrow> v))"

text \<open>The row loop keeps a row when its label passes
  \<open>if (!rowLabel || rowLabel === '') continue\<close>.\<close>

definition keptRow :: "clean_cell list \<Rightarrow> bool" where
  "keptRow row = (\<not> (\<not> truthy (rowLabelOf row) \<or> rowLabelOf row = JStr []))"

text \<open>
  Column letters in exact arithmetic: the letters of a whole number in the bijective
  base 26 of spreadsheet columns, and the number a string of letters stands for.
\<close>

function lettersLoop :: "int \<Rightarrow> string \<Rightarrow> string" where
  "lettersLoop n acc =
     (if n > 0 then lettersLoop ((n - 1) div 26) (char_of (65 + (n - 1) mod 26) # acc)
      else acc)"
  by pat_completeness auto
termination
  by (relation "measure (\<lambda>(n, s). nat n)") auto

declare lettersLoop.simps [simp del]

definition lettersOf :: "int \<Rightarrow> string" where
  "lettersOf n = lettersLoop n []"

definition numberOf :: "string \<Rightarrow> int" where
  "numberOf s = foldl (\<lambda>n c. n * 26 + (of_char c - 64)) 0 s"

text \<open>
  How the worksheet reads an address of the form \<open>A1:GR316\<close>: two corners, each a
  column in letters and a row in digits. The result is the column and row of the first
  corner and of the last.
\<close>

definition cellRef :: "string \<Rightarrow> (int \<times> nat) option" where
  "cellRef s =
     (let letters = takeWhile isUpper s;
          digits = dropWhile isUpper s
      in if letters \<noteq> [] \<and> digits \<noteq> [] \<and> list_all isDigit digits
         then Some (numberOf letters, decVal digits) else None)"

definition resolveAddress :: "string \<Rightarrow> ((int \<times> nat) \<times> (int \<times> nat)) option" where
  "resolveAddress a =
     (case dropWhile (\<lambda>c. c \<noteq> CHR '':'') a of
        [] \<Rightarrow> None
      | colon # second \<Rightarrow>
          (case (cellRef (takeWhile (\<lambda>c. c \<noteq> CHR '':'') a), cellRef second) of
             (Some p, Some q) \<Rightarrow> Some (p, q)
           | _ \<Rightarrow> None))"

text \<open>The address of a loaded range names its sheet first, as in
  \<open>Sheet1!D10:D100010\<close>; this is the part after the sheet name.\<close>

definition localAddress :: "string \<Rightarrow> string" where
  "localAddress a =
     (case dropWhile (\<lambda>c. c \<noteq> CHR ''!'') a of [] \<Rightarrow> a | bang # rest \<Rightarrow> rest)"

text \<open>A range and a worksheet for evaluating examples: every cell holds the number 1,
  and the sheet resolves an address to the block it names.\<close>

definition exampleRange :: "string \<Rightarrow> nat \<Rightarrow> nat \<Rightarrow> range" where
  "exampleRange a rows cols =
     \<lparr>address = a, rowCount = rows, columnCount = cols,
      rangeValues = replicate rows (replicate cols (JNum (Fin 1))),
      rangeFormulas = replicate rows (replicate cols (JNum (Fin 1))),
      numberFormat = replicate rows (replicate cols ''General''),
      originalSize = None\<rparr>"

definition exampleSheet :: "range \<Rightarrow> worksheet" where
  "exampleSheet used =
     \<lparr>wsName = ''Sheet1'', getUsedRange = Some used,
      getRange = (\<lambda>a. case resolveAddress a of
                         Some ((c1, r1), (c2, r2)) \<Rightarrow>
                           exampleRange a (r2 + 1 - r1) (nat (c2 + 1 - c1))
                       | None \<Rightarrow> exampleRange a 0 0)\<rparr>"

section \<open>Basic facts\<close>


lemma includes_char: "str_includes s [c] \<longleftrightarrow> c \<in> set s"
  unfolding str_includes_def
  by (induction s) (auto simp: sublist_Cons_right)

lemma isNaN_iff: "isNaN n \<longleftrightarrow> n = NaN"
  by (cases n) simp_all

text \<open>Equations for evaluating the rounding on a given number.\<close>

lemma roundHalfEven_eval:
  "roundHalfEven x =
     (if x - of_int \<lfloor>x\<rfloor> < 1 / 2 then \<lfloor>x\<rfloor>
      else if 1 / 2 < x - of_int \<lfloor>x\<rfloor> then \<lfloor>x\<rfloor> + 1
      else if even \<lfloor>x\<rfloor> then \<lfloor>x\<rfloor> else \<lfloor>x\<rfloor> + 1)"
  by (simp only: roundHalfEven_def Let_def)

lemma roundDouble_eval:
  "roundDouble q =
     (if q = 0 then Fin 0
      else if 2 ^ 1024 \<le> of_int (roundHalfEven (\<bar>q\<bar> / pow2 (max (floorLog2 \<bar>q\<bar>) (- 1022) - 52)))
                           * pow2 (max (floorLog2 \<bar>q\<bar>) (- 1022) - 52)
           then (if q < 0 then NegInf else PosInf)
           else Fin (if q < 0
                     then - (of_int (roundHalfEven (\<bar>q\<bar> / pow2 (max (floorLog2 \<bar>q\<bar>) (- 1022) - 52)))
                             * pow2 (max (floorLog2 \<bar>q\<bar>) (- 1022) - 52))
                     else of_int (roundHalfEven (\<bar>q\<bar> / pow2 (max (floorLog2 \<bar>q\<bar>) (- 1022) - 52)))
                             * pow2 (max (floorLog2 \<bar>q\<bar>) (- 1022) - 52)))"
  by (simp only: roundDouble_def Let_def)

lemma floor_rat_numeral:
  "\<lfloor>numeral a / numeral b :: rat\<rfloor> = numeral a div numeral b"
  using floor_divide_of_int_eq [of "numeral a" "numeral b", where ?'a = rat] by simp

lemma floor_rat_one:
  "\<lfloor>1 / numeral b :: rat\<rfloor> = 1 div numeral b"
  using floor_divide_of_int_eq [of 1 "numeral b", where ?'a = rat] by simp

lemma ceiling_rat_numeral:
  "\<lceil>numeral a / numeral b :: rat\<rceil> = - (- numeral a div numeral b)"
  using floor_divide_of_int_eq [of "- numeral a" "numeral b", where ?'a = rat]
  by (simp add: ceiling_def)

lemma ceiling_rat_one:
  "\<lceil>1 / numeral b :: rat\<rceil> = - (- 1 div numeral b)"
  using floor_divide_of_int_eq [of "- 1" "numeral b", where ?'a = rat]
  by (simp add: ceiling_def)

lemmas num_eval = parseFloatStr_def toNumberStr_def trim_def trimStart_def scanDecimal_def
  scanUnsigned_def scanExponent_def isWhiteSpace_def isDigit_def code_def decVal_def digitVal_def
  pow10_def roundDouble_eval floorLog2_def pow2_def roundHalfEven_eval bitLength.simps
  floor_rat_numeral floor_rat_one ceiling_rat_numeral ceiling_rat_one

section \<open>Rounding to binary64\<close>

lemma bitLength_pos: "0 < n \<Longrightarrow> 0 < bitLength n"
  by (subst bitLength.simps) simp

lemma bitLength_lower: "0 < n \<Longrightarrow> 2 ^ (bitLength n - 1) \<le> n"
proof (induction n rule: bitLength.induct)
  case (1 n)
  show ?case
  proof (cases "n div 2 = 0")
    case True
    then have "bitLength (n div 2) = 0" by (subst bitLength.simps) simp
    with "1.prems" have "bitLength n = 1" by (subst bitLength.simps) simp
    with "1.prems" show ?thesis by simp
  next
    case False
    then have pos: "0 < n div 2" by simp
    with "1.IH" "1.prems" have ih: "2 ^ (bitLength (n div 2) - 1) \<le> n div 2" by simp
    from "1.prems" have b: "bitLength n = Suc (bitLength (n div 2))"
      by (subst bitLength.simps) simp
    from bitLength_pos [OF pos] have "bitLength n - 1 = Suc (bitLength (n div 2) - 1)"
      using b by simp
    then have "(2::nat) ^ (bitLength n - 1) = 2 * 2 ^ (bitLength (n div 2) - 1)" by simp
    also have "\<dots> \<le> 2 * (n div 2)" using ih by simp
    also have "\<dots> \<le> n" by simp
    finally show ?thesis .
  qed
qed

text \<open>The exponent of a magnitude below \<open>2^k\<close> is below \<open>k\<close>.\<close>

lemma floorLog2_less:
  assumes "0 < a" and "a < 2 ^ k" and "0 < k"
  shows "floorLog2 a < int k"
proof (cases "1 \<le> a")
  case False
  have "- int (bitLength (nat (\<lceil>1 / a\<rceil> - 1))) \<le> 0" by simp
  also have "0 < int k" using assms(3) by simp
  finally show ?thesis using False by (simp add: floorLog2_def)
next
  case True
  define n where "n = nat \<lfloor>a\<rfloor>"
  from True have n: "0 < n" by (simp add: n_def)
  have na: "of_nat n \<le> a" using True by (simp add: n_def)
  have "(2::rat) ^ (bitLength n - 1) \<le> of_nat n"
    using bitLength_lower [OF n] by (metis of_nat_le_iff of_nat_numeral of_nat_power)
  then have "(2::rat) ^ (bitLength n - 1) \<le> a" using na by (rule order_trans)
  then have "(2::rat) ^ (bitLength n - 1) < 2 ^ k" using assms(2) by (rule order_le_less_trans)
  then have "bitLength n - 1 < k" by simp
  with bitLength_pos [OF n] show ?thesis
    using True by (simp add: floorLog2_def n_def [symmetric])
qed

lemma floorLog2_nonneg: "1 \<le> a \<Longrightarrow> 0 \<le> floorLog2 a"
proof -
  assume a: "1 \<le> a"
  then have "0 < nat \<lfloor>a\<rfloor>" by simp
  from bitLength_pos [OF this] a show ?thesis by (simp add: floorLog2_def)
qed

lemma roundHalfEven_int [simp]: "roundHalfEven (of_int m) = m"
  by (simp add: roundHalfEven_def)

lemma roundHalfEven_floor: "\<lfloor>x\<rfloor> \<le> roundHalfEven x"
  by (simp add: roundHalfEven_def Let_def)

lemma roundHalfEven_upper: "of_int (roundHalfEven x) \<le> x + 1 / 2"
proof -
  have f: "of_int \<lfloor>x\<rfloor> \<le> x" by simp
  consider "x - of_int \<lfloor>x\<rfloor> < 1 / 2" | "1 / 2 \<le> x - of_int \<lfloor>x\<rfloor>" by linarith
  then show ?thesis
  proof cases
    case 1
    then have "roundHalfEven x = \<lfloor>x\<rfloor>" by (simp add: roundHalfEven_def Let_def)
    with f have "of_int (roundHalfEven x) \<le> x" by simp
    then show ?thesis by linarith
  next
    case 2
    have "roundHalfEven x \<le> \<lfloor>x\<rfloor> + 1" by (simp add: roundHalfEven_def Let_def)
    then have "of_int (roundHalfEven x) \<le> (of_int \<lfloor>x\<rfloor> :: rat) + 1"
      by (metis of_int_1 of_int_add of_int_le_iff)
    with 2 show ?thesis by linarith
  qed
qed

text \<open>A whole number up to \<open>2^53\<close> is a binary64 value.\<close>

lemma roundDouble_exact:
  assumes "0 \<le> k" and "k \<le> 2 ^ 53"
  shows "roundDouble (of_int k) = Fin (of_int k)"
proof (cases "k = 0")
  case True
  then show ?thesis by (simp add: roundDouble_def)
next
  case False
  with assms have k: "1 \<le> k" by simp
  define a :: rat where "a = of_int k"
  have a1: "1 \<le> a" using k by (simp add: a_def)
  have a53: "a \<le> 2 ^ 53" using assms(2) unfolding a_def
    by (metis of_int_le_iff of_int_numeral of_int_power)
  then have "a < 2 ^ 54" by (rule order_le_less_trans) simp
  with a1 have "floorLog2 a < 54" using floorLog2_less [of a 54] by simp
  moreover from a1 have "0 \<le> floorLog2 a" by (rule floorLog2_nonneg)
  ultimately have e: "max (floorLog2 a) (- 1022) = floorLog2 a"
    and bounds: "0 \<le> floorLog2 a" "floorLog2 a \<le> 53" by simp_all
  define j where "j = nat (53 - floorLog2 a)"
  have ulp: "pow2 (floorLog2 a - 52) = 2 / 2 ^ j"
  proof (cases "floorLog2 a = 53")
    case True
    then show ?thesis by (simp add: pow2_def j_def)
  next
    case False
    with bounds have lt: "floorLog2 a - 52 \<le> 0" by simp
    have "nat (53 - floorLog2 a) = Suc (nat (52 - floorLog2 a))" using lt by simp
    then have "(2::rat) ^ j = 2 * 2 ^ nat (52 - floorLog2 a)" by (simp add: j_def)
    moreover have "pow2 (floorLog2 a - 52) = 1 / 2 ^ nat (52 - floorLog2 a)"
      using lt by (cases "floorLog2 a = 52") (simp_all add: pow2_def)
    ultimately show ?thesis by simp
  qed
  have even_case: "\<exists>m. a / (2 / 2 ^ j) = of_int m"
  proof (cases j)
    case 0
    then have "floorLog2 a = 53" using bounds by (simp add: j_def)
    then have "(2::rat) ^ 53 \<le> a"
    proof -
      have "\<not> a < 2 ^ 53"
      proof
        assume "a < 2 ^ 53"
        with a1 have "floorLog2 a < 53" using floorLog2_less [of a 53] by simp
        with \<open>floorLog2 a = 53\<close> show False by simp
      qed
      then show ?thesis by simp
    qed
    with a53 have "a = 2 ^ 53" by simp
    with 0 have "a / (2 / 2 ^ j) = of_int (2 ^ 52)" by simp
    then show ?thesis ..
  next
    case (Suc i)
    then have "a / (2 / 2 ^ j) = of_int (k * 2 ^ i)" by (simp add: a_def)
    then show ?thesis ..
  qed
  then obtain m where m: "a / (2 / 2 ^ j) = of_int m" ..
  then have r: "of_int (roundHalfEven (a / (2 / 2 ^ j))) * (2 / 2 ^ j) = a"
    by simp (metis m nonzero_divide_eq_eq divide_eq_0_iff power_eq_0_iff zero_neq_numeral
        divide_divide_eq_right times_divide_eq_left)
  have "a < 2 ^ 1024" using a53 by (rule order_le_less_trans) simp
  with r a1 show ?thesis
    unfolding roundDouble_def a_def [symmetric] Let_def
    by (simp add: e ulp)
qed

lemma roundDouble_div26:
  assumes "0 \<le> x" and "x \<le> 2 ^ 53"
  shows "\<exists>q. roundDouble (of_int x / 26) = Fin q \<and> \<lfloor>q\<rfloor> = x div 26"
proof (cases "x = 0")
  case True
  then show ?thesis by (simp add: roundDouble_def)
next
  case False
  with assms have x1: "1 \<le> x" by simp
  define y :: rat where "y = of_int x / 26"
  have ypos: "0 < y" using x1 by (simp add: y_def)
  have "(of_int x :: rat) \<le> 2 ^ 53" using assms(2)
    by (metis of_int_le_iff of_int_numeral of_int_power)
  then have ylt: "y < 2 ^ 49" by (simp add: y_def)
  have fy: "\<lfloor>y\<rfloor> = x div 26"
    unfolding y_def using floor_divide_of_int_eq [of x 26, where ?'a = rat] by simp
  define e where "e = max (floorLog2 y) (- 1022)"
  have "floorLog2 y < 49" using floorLog2_less [OF ypos ylt] by simp
  then have e48: "e \<le> 48" by (simp add: e_def)
  define j where "j = nat (52 - e)"
  have j4: "4 \<le> j" using e48 by (simp add: j_def)
  have ulp: "pow2 (e - 52) = 1 / 2 ^ j" using e48 by (simp add: pow2_def j_def)
  have p16: "(16::rat) \<le> 2 ^ j"
    using power_increasing [OF j4, of "2::rat"] by simp
  define t where "t = y * 2 ^ j"
  define r :: rat where "r = of_int (roundHalfEven t) / 2 ^ j"
  have "of_int \<lfloor>y\<rfloor> * 2 ^ j \<le> t"
    unfolding t_def by (rule mult_right_mono) simp_all
  then have "of_int (\<lfloor>y\<rfloor> * 2 ^ j) \<le> t" by simp
  then have "\<lfloor>y\<rfloor> * 2 ^ j \<le> \<lfloor>t\<rfloor>" by (simp only: le_floor_iff)
  also have "\<dots> \<le> roundHalfEven t" by (rule roundHalfEven_floor)
  finally have "(of_int (\<lfloor>y\<rfloor> * 2 ^ j) :: rat) \<le> of_int (roundHalfEven t)"
    by (simp only: of_int_le_iff)
  then have "(of_int (\<lfloor>y\<rfloor> * 2 ^ j) :: rat) / 2 ^ j \<le> r"
    unfolding r_def by (rule divide_right_mono) simp
  then have lower: "of_int \<lfloor>y\<rfloor> \<le> r" by simp
  have "r \<le> (t + 1 / 2) / 2 ^ j"
    unfolding r_def by (rule divide_right_mono [OF roundHalfEven_upper]) simp
  also have "\<dots> = y + 1 / (2 * 2 ^ j)" by (simp add: t_def add_divide_distrib)
  also have "\<dots> \<le> y + 1 / 32"
  proof -
    have "(32::rat) \<le> 2 * 2 ^ j" using p16 by simp
    then have "1 / (2 * 2 ^ j) \<le> 1 / (32::rat)" by (rule divide_left_mono) simp_all
    then show ?thesis by simp
  qed
  finally have upper: "r \<le> y + 1 / 32" .
  have "x mod 26 \<le> 25" by simp
  then have m25: "(of_int (x mod 26) :: rat) \<le> 25" by (simp only: of_int_le_iff of_int_numeral)
  have eq: "(of_int x :: rat) = 26 * of_int (x div 26) + of_int (x mod 26)"
    by (metis mult_div_mod_eq of_int_add of_int_mult of_int_numeral)
  have "y = of_int (x div 26) + of_int (x mod 26) / 26"
    unfolding y_def by (subst eq) (simp add: add_divide_distrib)
  moreover have "(of_int (x mod 26) :: rat) / 26 \<le> 25 / 26"
    using m25 by (rule divide_right_mono) simp
  ultimately have frac: "y \<le> of_int \<lfloor>y\<rfloor> + 25 / 26" unfolding fy by linarith
  from upper frac have lt1: "r < of_int \<lfloor>y\<rfloor> + 1" by linarith
  from lower lt1 have fr: "\<lfloor>r\<rfloor> = \<lfloor>y\<rfloor>" by (rule floor_unique)
  have "of_int \<lfloor>y\<rfloor> \<le> y" by simp
  with lt1 ylt have "r < 2 ^ 49 + 1" by linarith
  also have "\<dots> < (2::rat) ^ 1024" by simp
  finally have big: "r < 2 ^ 1024" .
  have ay: "\<bar>y\<bar> = y" using ypos by simp
  have rd: "roundDouble y = Fin r"
    using ypos big
    unfolding roundDouble_def Let_def ay e_def [symmetric] ulp
    by (simp add: t_def [symmetric] r_def [symmetric])
  from fr fy have "\<lfloor>r\<rfloor> = x div 26" by (rule trans)
  with rd have "roundDouble y = Fin r \<and> \<lfloor>r\<rfloor> = x div 26" by (rule conjI)
  then show ?thesis unfolding y_def by (rule exI)
qed



section \<open>Column letters in exact arithmetic\<close>

lemma numberOf_shift:
  "foldl (\<lambda>n c. n * 26 + (of_char c - 64)) (a::int) s
     = a * 26 ^ length s + foldl (\<lambda>n c. n * 26 + (of_char c - 64)) (0::int) s"
proof (induction s arbitrary: a)
  case Nil
  show ?case by simp
next
  case (Cons c s)
  show ?case
    using Cons.IH [of "a * 26 + (of_char c - 64)"] Cons.IH [of "of_char c - 64"]
    by (simp add: algebra_simps)
qed

lemma numberOf_Cons:
  "numberOf (c # s) = (of_char c - 64) * 26 ^ length s + numberOf s"
  unfolding numberOf_def
  using numberOf_shift [of "of_char c - 64" s] by simp

lemma letter_code:
  assumes "0 \<le> r" "r < (26::int)"
  shows "of_char (char_of (65 + r)) = 65 + r"
proof -
  have "of_char (char_of (65 + r)) = (65 + r) mod 256" by simp
  also have "\<dots> = 65 + r" using assms by simp
  finally show ?thesis .
qed

text \<open>The loop invariant: the letters produced so far are the low digits, and what is
  left of the number counts the places above them.\<close>

lemma numberOf_loop:
  "0 \<le> n \<Longrightarrow> numberOf (lettersLoop n acc) = n * 26 ^ length acc + numberOf acc"
proof (induction n acc rule: lettersLoop.induct)
  case (1 n acc)
  show ?case
  proof (cases "n > 0")
    case False
    with "1.prems" have "n = 0" by simp
    then show ?thesis by (subst lettersLoop.simps) simp
  next
    case True
    define r where "r = (n - 1) mod 26"
    define m where "m = (n - 1) div 26"
    have r: "0 \<le> r" "r < 26" by (simp_all add: r_def)
    have m: "0 \<le> m" using True by (simp add: m_def)
    have n: "n = 26 * m + r + 1" by (simp add: r_def m_def)
    have step: "lettersLoop n acc = lettersLoop m (char_of (65 + r) # acc)"
      using True by (subst lettersLoop.simps) (simp add: r_def m_def Let_def)
    have ih: "numberOf (lettersLoop m (char_of (65 + r) # acc))
                = m * 26 ^ length (char_of (65 + r) # acc)
                  + numberOf (char_of (65 + r) # acc)"
      using "1.IH" [OF True] m
      unfolding r_def m_def by simp
    have "numberOf (char_of (65 + r) # acc)
            = (r + 1) * 26 ^ length acc + numberOf acc"
      using letter_code [OF r] by (simp add: numberOf_Cons)
    with ih step show ?thesis by (simp add: n algebra_simps)
  qed
qed

lemma numberOf_lettersOf:
  "0 \<le> n \<Longrightarrow> numberOf (lettersOf n) = n"
  using numberOf_loop [of n "[]"]
  by (simp add: lettersOf_def numberOf_def)

lemma lettersLoop_upper:
  "0 \<le> n \<Longrightarrow> list_all isUpper acc \<Longrightarrow> list_all isUpper (lettersLoop n acc)"
proof (induction n acc rule: lettersLoop.induct)
  case (1 n acc)
  show ?case
  proof (cases "n > 0")
    case False
    with "1.prems" show ?thesis by (subst lettersLoop.simps) simp
  next
    case True
    define r where "r = (n - 1) mod 26"
    have r: "0 \<le> r" "r < 26" by (simp_all add: r_def)
    have "char_of (65 + r) = char_of (nat (65 + r))"
      using r char_of_nat [of "nat (65 + r)", where ?'a = int] by simp
    then have "code (char_of (65 + r)) = nat (65 + r) mod 256"
      by (simp add: code_def)
    moreover have "nat (65 + r) = 65 + nat r" "nat r < 26" using r by simp_all
    ultimately have up: "isUpper (char_of (65 + r))" by (simp add: isUpper_def)
    have "list_all isUpper (lettersLoop ((n - 1) div 26) (char_of (65 + r) # acc))"
      using "1.IH" [OF True] True "1.prems" up unfolding r_def by simp
    with True show ?thesis by (subst lettersLoop.simps) (simp add: r_def Let_def)
  qed
qed

lemma lettersLoop_nonempty:
  "0 < n \<or> acc \<noteq> [] \<Longrightarrow> lettersLoop n acc \<noteq> []"
proof (induction n acc rule: lettersLoop.induct)
  case (1 n acc)
  show ?case
  proof (cases "n > 0")
    case False
    with "1.prems" show ?thesis by (subst lettersLoop.simps) simp
  next
    case True
    have "lettersLoop ((n - 1) div 26) (char_of (65 + (n - 1) mod 26) # acc) \<noteq> []"
      using "1.IH" [OF True] by simp
    with True show ?thesis by (subst lettersLoop.simps) (simp add: Let_def)
  qed
qed

lemma isUpper_code: "isUpper c \<Longrightarrow> 64 \<le> (of_char c :: int)"
proof -
  assume "isUpper c"
  then have "65 \<le> (of_char c :: nat)" by (simp add: isUpper_def code_def)
  then have "(65::int) \<le> int (of_char c)" by linarith
  then have "(65::int) \<le> of_char c" by (simp only: of_nat_of_char)
  then show ?thesis by linarith
qed

section \<open>The column functions on whole numbers up to \<open>2^53\<close>\<close>

text \<open>Up to \<open>2^53\<close> the rounded arithmetic of the two functions makes no error that
  shows: the differences, sums and products are exact, and the quotient by 26 is rounded
  by less than the distance to the next whole number.\<close>

lemma truncInt_of_int [simp]: "truncInt (of_int k) = k"
  by (simp add: truncInt_def)

lemma getColumnLetterLoop_exact:
  "n \<le> 2 ^ 53 \<Longrightarrow> getColumnLetterLoop (Fin (of_int n)) acc = Some (lettersLoop n acc)"
proof (induction n acc rule: lettersLoop.induct)
  case (1 n acc)
  show ?case
  proof (cases "0 < n")
    case False
    then show ?thesis by (subst getColumnLetterLoop.simps, subst lettersLoop.simps) simp
  next
    case True
    define m where "m = n - 1"
    have m: "0 \<le> m" "m \<le> 2 ^ 53" using True "1.prems" by (simp_all add: m_def)
    have r: "0 \<le> m mod 26" "m mod 26 < 26" by simp_all
    have sub: "jsAdd (Fin (of_int n)) (- 1) = Fin (of_int m)"
      using roundDouble_exact [OF m] by (simp add: m_def)
    have "truncInt (of_int m / 26) = m div 26"
      using m(1) floor_divide_of_int_eq [of m 26, where ?'a = rat] by (simp add: truncInt_def)
    moreover have "(of_int m :: rat) - 26 * of_int (m div 26) = of_int (m mod 26)"
      by (metis minus_mult_div_eq_mod of_int_diff of_int_mult of_int_numeral)
    ultimately have rem: "jsRem (Fin (of_int m)) 26 = Fin (of_int (m mod 26))" by simp
    have code: "jsAdd (Fin (of_int (m mod 26))) 65 = Fin (of_int (65 + m mod 26))"
      using roundDouble_exact [of "65 + m mod 26"] r by (simp add: add.commute)
    have chr: "fromCharCode (Fin (of_int (65 + m mod 26))) = char_of (65 + m mod 26)"
    proof -
      have "(65 + m mod 26) mod 65536 = 65 + m mod 26" using r by simp
      then show ?thesis by (simp only: fromCharCode.simps truncInt_of_int)
    qed
    obtain q where q: "roundDouble (of_int m / 26) = Fin q" "\<lfloor>q\<rfloor> = m div 26"
      using roundDouble_div26 [OF m] by blast
    then have quo: "jsFloor (jsDiv (Fin (of_int m)) 26) = Fin (of_int (m div 26))" by simp
    have "m div 26 \<le> m" using m(1) by simp
    with m(2) have "(n - 1) div 26 \<le> 2 ^ 53" by (simp add: m_def)
    from "1.IH" [OF True this]
    have ih: "getColumnLetterLoop (Fin (of_int (m div 26))) (char_of (65 + m mod 26) # acc)
                = Some (lettersLoop (m div 26) (char_of (65 + m mod 26) # acc))"
      by (simp add: m_def)
    have "getColumnLetterLoop (Fin (of_int n)) acc
            = getColumnLetterLoop (Fin (of_int (m div 26))) (char_of (65 + m mod 26) # acc)"
      using True by (subst getColumnLetterLoop.simps) (simp only: sub rem code chr quo isPositive.simps of_int_0_less_iff if_True)
    also note ih
    also have "lettersLoop (m div 26) (char_of (65 + m mod 26) # acc) = lettersLoop n acc"
      using True by (subst (2) lettersLoop.simps) (simp add: m_def)
    finally show ?thesis .
  qed
qed

lemma digits_grow:
  "0 \<le> (a::int) \<Longrightarrow> \<forall>c \<in> set s. 64 \<le> (of_char c :: int) \<Longrightarrow>
   a \<le> foldl (\<lambda>n c. n * 26 + (of_char c - 64)) a s"
proof (induction s arbitrary: a)
  case Nil
  show ?case by simp
next
  case (Cons c s)
  from Cons.prems have d: "0 \<le> (of_char c :: int) - 64" by simp
  with Cons.prems(1) have "a \<le> a * 26 + (of_char c - 64)" by simp
  also have "\<dots> \<le> foldl (\<lambda>n c. n * 26 + (of_char c - 64)) (a * 26 + (of_char c - 64)) s"
    using Cons.IH [of "a * 26 + (of_char c - 64)"] Cons.prems d by simp
  finally show ?case by simp
qed

lemma getColumnNumber_fold_exact:
  "0 \<le> a \<Longrightarrow> \<forall>c \<in> set s. 64 \<le> (of_char c :: int) \<Longrightarrow>
   foldl (\<lambda>n c. n * 26 + (of_char c - 64)) a s \<le> 2 ^ 53 \<Longrightarrow>
   foldl (\<lambda>columnNumber c. jsAdd (jsMul columnNumber 26) (of_int (of_char c - 64)))
       (Fin (of_int a)) s
     = Fin (of_int (foldl (\<lambda>n c. n * 26 + (of_char c - 64)) a s))"
proof (induction s arbitrary: a)
  case Nil
  show ?case by simp
next
  case (Cons c s)
  define d :: int where "d = of_char c - 64"
  define b where "b = a * 26 + d"
  from Cons.prems have d: "0 \<le> d" by (simp add: d_def)
  with Cons.prems(1) have b: "0 \<le> b" by (simp add: b_def)
  have rest: "\<forall>c \<in> set s. 64 \<le> (of_char c :: int)" using Cons.prems(2) by simp
  have "b \<le> foldl (\<lambda>n c. n * 26 + (of_char c - 64)) b s" using digits_grow [OF b rest] .
  also have "\<dots> \<le> 2 ^ 53" using Cons.prems(3) by (simp add: b_def d_def)
  finally have b53: "b \<le> 2 ^ 53" .
  have a26: "0 \<le> a * 26" "a * 26 \<le> 2 ^ 53" using Cons.prems(1) d b53 by (simp_all add: b_def)
  have "jsMul (Fin (of_int a)) 26 = Fin (of_int (a * 26))"
    using roundDouble_exact [OF a26] by simp
  moreover have "jsAdd (Fin (of_int (a * 26))) (of_int d) = Fin (of_int b)"
    using roundDouble_exact [OF b b53] by (simp add: b_def)
  ultimately have step: "jsAdd (jsMul (Fin (of_int a)) 26) (of_int (of_char c - 64)) = Fin (of_int b)"
    by (simp only: d_def)
  have "foldl (\<lambda>columnNumber c. jsAdd (jsMul columnNumber 26) (of_int (of_char c - 64)))
          (Fin (of_int b)) s
        = Fin (of_int (foldl (\<lambda>n c. n * 26 + (of_char c - 64)) b s))"
    using Cons.IH [OF b rest] Cons.prems(3) by (simp add: b_def d_def)
  then show ?case by (simp only: foldl_Cons step) (simp add: b_def d_def)
qed

lemma getColumnNumber_exact:
  "\<forall>c \<in> set s. 64 \<le> (of_char c :: int) \<Longrightarrow> numberOf s \<le> 2 ^ 53 \<Longrightarrow>
   getColumnNumber s = Fin (of_int (numberOf s))"
  using getColumnNumber_fold_exact [of 0 s] by (simp add: getColumnNumber_def numberOf_def)

lemma getColumnLetter_exact:
  "n \<le> 2 ^ 53 \<Longrightarrow> getColumnLetter (Fin (of_int n)) = Some (lettersOf n)"
  by (simp add: getColumnLetter_def lettersOf_def getColumnLetterLoop_exact)

lemma getColumnNumber_lettersOf:
  assumes "0 \<le> n" and "n \<le> 2 ^ 53"
  shows "getColumnNumber (lettersOf n) = Fin (of_int n)"
proof -
  have "list_all isUpper (lettersOf n)"
    unfolding lettersOf_def using assms(1) by (rule lettersLoop_upper) simp
  then have "\<forall>c \<in> set (lettersOf n). 64 \<le> (of_char c :: int)"
    by (simp add: list_all_iff isUpper_code)
  moreover have "numberOf (lettersOf n) = n" using assms(1) by (rule numberOf_lettersOf)
  ultimately show ?thesis using assms(2) getColumnNumber_exact [of "lettersOf n"] by simp
qed

section \<open>The type histogram\<close>

lemma increment_keys: "map fst (increment types t) = map fst types"
  by (induction types) (auto simp: increment_def)

lemma increment_sum:
  "sum_list (map snd (increment types t)) = sum_list (map snd types) + count_list (map fst types) t"
  by (induction types) (auto simp: increment_def)

lemma increment_map_of:
  "map_of (increment types t) k
     = (if k = t then map_option Suc (map_of types k) else map_of types k)"
  by (induction types) (auto simp: increment_def)

lemma countCell_increment:
  "countCell dp nf i (j, cell) types
     = increment types (detectCellType dp cell (formatAt nf i j))"
proof -
  have absent: "increment types t = types" if "t \<notin> fst ` set types" for t
    unfolding increment_def using that by (induction types) auto
  show ?thesis
    using absent by (auto simp: countCell_def Let_def hasOwnProperty_def)
qed

lemma analyzeDataTypes_fold:
  "analyzeDataTypes dp rv nf = fold (\<lambda>t types. increment types t) (cellTags dp rv nf) initialTypes"
proof -
  have inner: "fold (countCell dp nf i) xs types
        = fold (\<lambda>t types. increment types t)
            (map (\<lambda>(j, cell). detectCellType dp cell (formatAt nf i j)) xs) types"
    for i xs types
    by (induction xs arbitrary: types) (auto simp: countCell_increment)
  have outer: "fold (\<lambda>(i, row) types. fold (countCell dp nf i) (enumerate 0 row) types) ys types
        = fold (\<lambda>t types. increment types t)
            (concat (map (\<lambda>(i, row).
                map (\<lambda>(j, cell). detectCellType dp cell (formatAt nf i j)) (enumerate 0 row)) ys))
            types"
    for ys types
    by (induction ys arbitrary: types) (auto simp: inner)
  show ?thesis
    unfolding analyzeDataTypes_def cellTags_def by (rule outer)
qed

lemma fold_increment_keys:
  "map fst (fold (\<lambda>t types. increment types t) ts types) = map fst types"
  by (induction ts arbitrary: types) (simp_all add: increment_keys)

lemma fold_increment_map_of:
  "map_of (fold (\<lambda>t types. increment types t) ts types) k
     = map_option (\<lambda>n. n + count_list ts k) (map_of types k)"
proof (induction ts arbitrary: types)
  case Nil
  show ?case by (simp add: option.map_ident)
next
  case (Cons t ts)
  show ?case
    by (cases "map_of types k") (auto simp: Cons.IH increment_map_of)
qed

lemma fold_increment_sum:
  "sum_list (map snd (fold (\<lambda>t types. increment types t) ts types))
     = sum_list (map snd types) + sum_list (map (count_list (map fst types)) ts)"
  by (induction ts arbitrary: types) (simp_all add: increment_sum increment_keys)

lemma initial_keys_count:
  "count_list (map fst initialTypes) t = (if t = Empty then 0 else 1)"
  by (cases t) (simp_all add: initialTypes_def)

lemma sum_nonempty:
  "sum_list (map (\<lambda>t. if t = Empty then 0 else (1::nat)) ts) = length (filter (\<lambda>t. t \<noteq> Empty) ts)"
  by (induction ts) auto

lemma count_empty_split:
  "length (filter (\<lambda>t. t \<noteq> Empty) ts) + count_list ts Empty = length ts"
  by (induction ts) auto

lemma length_cellTags: "length (cellTags dp rv nf) = sum_list (map length rv)"
proof -
  have "length (concat (map (\<lambda>(i, row).
                map (\<lambda>(j, cell). detectCellType dp cell (formatAt nf i j)) (enumerate 0 row))
              (enumerate n rv)))
          = sum_list (map length rv)" for n
    by (induction rv arbitrary: n) simp_all
  then show ?thesis by (simp add: cellTags_def)
qed

text \<open>
  Claim C1, as the code has it. The histogram has exactly the six keys text, number,
  date, currency, percentage and boolean, and no key for empty cells: each key counts
  the cells of the classified grid with that tag, so the counts add up to the number of
  cells whose tag is not empty, which for a grid of \<open>rowCount\<close> rows of \<open>colCount\<close>
  cells is \<open>rowCount \<times> colCount\<close> less the number of empty cells.
\<close>

theorem histogram_counts_nonempty_cells:
  fixes dp rv nf
  defines "h \<equiv> analyzeDataTypes dp rv nf"
  defines "tags \<equiv> cellTags dp rv nf"
  shows "map fst h = [Text, Number, Date, Currency, Percentage, Boolean]
       \<and> (\<forall>t \<in> set (map fst h). map_of h t = Some (count_list tags t))
       \<and> map_of h Empty = None
       \<and> sum_list (map snd h) + count_list tags Empty = length tags
       \<and> length tags = sum_list (map length rv)
       \<and> ((\<forall>row \<in> set rv. length row = colCount)
            \<longrightarrow> sum_list (map snd h) = length rv * colCount - count_list tags Empty)"
proof -
  have keys: "map fst h = [Text, Number, Date, Currency, Percentage, Boolean]"
    by (simp add: h_def analyzeDataTypes_fold fold_increment_keys initialTypes_def)
  have cnt: "map_of h t = map_option (\<lambda>n. n + count_list tags t) (map_of initialTypes t)" for t
    by (simp add: h_def tags_def analyzeDataTypes_fold fold_increment_map_of)
  have each: "\<forall>t \<in> set (map fst h). map_of h t = Some (count_list tags t)"
    unfolding keys by (simp add: cnt initialTypes_def)
  have none: "map_of h Empty = None"
    by (simp add: cnt initialTypes_def)
  have fn: "count_list (map fst initialTypes) = (\<lambda>t. if t = Empty then 0 else 1)"
    by (rule ext) (rule initial_keys_count)
  have "sum_list (map snd h)
          = sum_list (map snd initialTypes)
            + sum_list (map (count_list (map fst initialTypes)) tags)"
    unfolding h_def tags_def analyzeDataTypes_fold by (rule fold_increment_sum)
  also have "sum_list (map snd initialTypes) = 0"
    by (simp add: initialTypes_def)
  finally have "sum_list (map snd h) = length (filter (\<lambda>t. t \<noteq> Empty) tags)"
    unfolding fn by (simp add: sum_nonempty)
  then have total: "sum_list (map snd h) + count_list tags Empty = length tags"
    by (simp add: count_empty_split)
  have len: "length tags = sum_list (map length rv)"
    by (simp add: tags_def length_cellTags)
  have rect: "sum_list (map snd h) = length rv * colCount - count_list tags Empty"
    if "\<forall>row \<in> set rv. length row = colCount"
  proof -
    have "sum_list (map length rv) = length rv * colCount"
      using that by (induction rv) auto
    with total len show ?thesis by simp
  qed
  from keys each none total len rect show ?thesis by blast
qed


text \<open>A two by two grid with one empty cell: three cells are counted.\<close>

theorem histogram_witness:
  "length [JStr ''Revenue'', JNum (Fin 100)] = 2 \<and> length [JStr [], JBool True] = 2
   \<and> analyzeDataTypes noDates [[JStr ''Revenue'', JNum (Fin 100)], [JStr [], JBool True]] None
       = [(Text, 1), (Number, 1), (Date, 0), (Currency, 0), (Percentage, 0), (Boolean, 1)]
   \<and> sum_list (map snd (analyzeDataTypes noDates
          [[JStr ''Revenue'', JNum (Fin 100)], [JStr [], JBool True]] None)) = 2 * 2 - 1"
  using histogram_counts_nonempty_cells
          [of noDates "[[JStr ''Revenue'', JNum (Fin 100)], [JStr [], JBool True]]" None 2]
  by (simp add: analyzeDataTypes_def countCell_def detectCellType_def formatAt_def noDates_def
        hasOwnProperty_def increment_def initialTypes_def cellTags_def
        parseFloatStr_def trimStart_def scanDecimal_def scanUnsigned_def isWhiteSpace_def isDigit_def code_def)

text \<open>On that grid the counts do not add up to the four cells of the grid, and the
  histogram has no entry for the empty tag.\<close>

theorem histogram_counterexample:
  "sum_list (map snd (analyzeDataTypes noDates
       [[JStr ''Revenue'', JNum (Fin 100)], [JStr [], JBool True]] None))
     \<noteq> length [[JStr ''Revenue'', JNum (Fin 100)], [JStr [], JBool True]] * 2
   \<and> map_of (analyzeDataTypes noDates
       [[JStr ''Revenue'', JNum (Fin 100)], [JStr [], JBool True]] None) Empty = None"
  by (simp add: analyzeDataTypes_def countCell_def detectCellType_def formatAt_def noDates_def
        hasOwnProperty_def increment_def initialTypes_def
        parseFloatStr_def trimStart_def scanDecimal_def scanUnsigned_def isWhiteSpace_def isDigit_def code_def)

section \<open>The cell classifier\<close>

text \<open>
  Claim C4. \<open>detectCellType\<close> is a function of the value and the format that always
  gives one of the seven tags, by these rules in this order: \<open>null\<close>, \<open>undefined\<close> and
  the empty string are empty; a boolean is boolean; a number is currency when the format
  has a dollar sign or the word currency, else percentage when it has a percent sign,
  else date when it has one of the letters d, m, y, else number; a non-empty string is
  date when \<open>Date.parse\<close> reads it, else number when \<open>parseFloat\<close> reads a number from it
  and the whole of it is a finite number, else text; any other value is text. An absent
  format has no marker.
\<close>

theorem detectCellType_rules:
  fixes dateParse v format
  defines "fmt \<equiv> (case format of None \<Rightarrow> [] | Some g \<Rightarrow> g)"
  shows "(v = JNull \<or> v = JUndefined \<or> v = JStr [] \<longrightarrow> detectCellType dateParse v format = Empty)
       \<and> (\<forall>b. v = JBool b \<longrightarrow> detectCellType dateParse v format = Boolean)
       \<and> (\<forall>n. v = JNum n \<longrightarrow> detectCellType dateParse v format =
             (if CHR ''$'' \<in> set fmt \<or> sublist ''currency'' fmt then Currency
              else if CHR ''%'' \<in> set fmt then Percentage
              else if CHR ''d'' \<in> set fmt \<or> CHR ''m'' \<in> set fmt \<or> CHR ''y'' \<in> set fmt then Date
              else Number))
       \<and> (\<forall>s. v = JStr s \<and> s \<noteq> [] \<longrightarrow> detectCellType dateParse v format =
             (if dateParse s \<noteq> NaN then Date
              else if parseFloatStr s \<noteq> NaN \<and> isFinite (toNumberStr s) then Number
              else Text))
       \<and> (\<forall>x. v = JObj x \<longrightarrow> detectCellType dateParse v format = Text)
       \<and> detectCellType dateParse v format
            \<in> {Empty, Boolean, Number, Currency, Percentage, Date, Text}"
proof -
  have e: "v = JNull \<or> v = JUndefined \<or> v = JStr [] \<longrightarrow> detectCellType dateParse v format = Empty"
    by (simp add: detectCellType_def)
  have b: "\<forall>b. v = JBool b \<longrightarrow> detectCellType dateParse v format = Boolean"
    by (simp add: detectCellType_def)
  have n: "\<forall>n. v = JNum n \<longrightarrow> detectCellType dateParse v format =
             (if CHR ''$'' \<in> set fmt \<or> sublist ''currency'' fmt then Currency
              else if CHR ''%'' \<in> set fmt then Percentage
              else if CHR ''d'' \<in> set fmt \<or> CHR ''m'' \<in> set fmt \<or> CHR ''y'' \<in> set fmt then Date
              else Number)"
  proof (cases format)
    case None
    then show ?thesis by (simp add: detectCellType_def fmt_def)
  next
    case (Some g)
    then show ?thesis
      using includes_char [of g] by (auto simp: detectCellType_def fmt_def str_includes_def)
  qed
  have s: "\<forall>s. v = JStr s \<and> s \<noteq> [] \<longrightarrow> detectCellType dateParse v format =
             (if dateParse s \<noteq> NaN then Date
              else if parseFloatStr s \<noteq> NaN \<and> isFinite (toNumberStr s) then Number
              else Text)"
    by (simp add: detectCellType_def isNaN_iff)
  have x: "\<forall>x. v = JObj x \<longrightarrow> detectCellType dateParse v format = Text"
    by (simp add: detectCellType_def)
  have r: "detectCellType dateParse v format
            \<in> {Empty, Boolean, Number, Currency, Percentage, Date, Text}"
    by (cases "detectCellType dateParse v format") simp_all
  from e b n s x r show ?thesis by blast
qed

text \<open>A number under a currency format, and a string that is a number.\<close>

theorem detectCellType_rules_witness:
  "CHR ''$'' \<in> set ''$#,##0.00''
   \<and> detectCellType noDates (JNum (Fin 5)) (Some ''$#,##0.00'') = Currency
   \<and> ''12.5'' \<noteq> [] \<and> noDates ''12.5'' = NaN
   \<and> parseFloatStr ''12.5'' = Fin (25 / 2) \<and> toNumberStr ''12.5'' = Fin (25 / 2)
   \<and> detectCellType noDates (JStr ''12.5'') None = Number"
proof -
  have dollar: "CHR ''$'' \<in> set ''$#,##0.00''" by simp
  have num: "detectCellType noDates (JNum (Fin 5)) (Some ''$#,##0.00'') = Currency"
    using detectCellType_rules
            [where v = "JNum (Fin 5)" and format = "Some ''$#,##0.00''" and dateParse = noDates]
          dollar
    by simp
  have pf: "parseFloatStr ''12.5'' = Fin (25 / 2)" by (simp add: num_eval)
  have tn: "toNumberStr ''12.5'' = Fin (25 / 2)" by (simp add: num_eval)
  have nd: "noDates ''12.5'' = NaN" by (simp add: noDates_def)
  have str: "detectCellType noDates (JStr ''12.5'') None = Number"
    using detectCellType_rules [where v = "JStr ''12.5''" and format = None and dateParse = noDates]
          pf tn nd
    by simp
  from dollar num pf tn nd str show ?thesis by simp
qed


section \<open>The header row\<close>


lemma findHeaderRowLoop_stop:
  "min 5 (length g) \<le> i \<Longrightarrow> findHeaderRowLoop g i = 0"
  by (subst findHeaderRowLoop.simps) auto

lemma findHeaderRowLoop_hit:
  "i < min 5 (length g) \<Longrightarrow> headerRule (g ! i) \<Longrightarrow> findHeaderRowLoop g i = i"
  by (subst findHeaderRowLoop.simps) (auto simp: headerRule_def Let_def)

lemma findHeaderRowLoop_miss:
  "i < min 5 (length g) \<Longrightarrow> \<not> headerRule (g ! i) \<Longrightarrow>
   findHeaderRowLoop g i = findHeaderRowLoop g (i + 1)"
  by (subst findHeaderRowLoop.simps) (auto simp: headerRule_def Let_def)

lemma findHeaderRowLoop_none:
  "(\<forall>j. i \<le> j \<and> j < min 5 (length g) \<longrightarrow> \<not> headerRule (g ! j)) \<Longrightarrow> findHeaderRowLoop g i = 0"
proof (induction "min 5 (length g) - i" arbitrary: i)
  case 0
  then have "min 5 (length g) \<le> i" by simp
  then have "findHeaderRowLoop g i = 0" "findHeaderRowLoop (take 5 g) i = 0"
    by (simp_all add: findHeaderRowLoop_stop)
  with "0.prems" show ?case by (simp add: neq_Nil_conv)
next
  case (Suc d)
  from Suc.hyps(2) have lt: "i < min 5 (length g)"
    and d: "d = min 5 (length g) - (i + 1)" by linarith+
  with Suc.prems have "\<not> headerRule (g ! i)" by simp
  with lt have "findHeaderRowLoop g i = findHeaderRowLoop g (i + 1)"
    by (rule findHeaderRowLoop_miss)
  moreover have "findHeaderRowLoop g (i + 1) = 0"
    using Suc.hyps(1) [OF d] Suc.prems by simp
  ultimately show ?case by simp
qed

lemma findHeaderRowLoop_first:
  "i \<le> k \<Longrightarrow> k < min 5 (length g) \<Longrightarrow> headerRule (g ! k) \<Longrightarrow>
   (\<forall>j. i \<le> j \<and> j < k \<longrightarrow> \<not> headerRule (g ! j)) \<Longrightarrow> findHeaderRowLoop g i = k"
proof (induction "k - i" arbitrary: i)
  case 0
  then have "i = k" by simp
  with "0.prems" show ?case by (simp add: findHeaderRowLoop_hit)
next
  case (Suc d)
  then have lt: "i < k" by simp
  with Suc.prems have "\<not> headerRule (g ! i)" by simp
  moreover from lt Suc.prems have "i < min 5 (length g)" by simp
  ultimately have "findHeaderRowLoop g i = findHeaderRowLoop g (i + 1)"
    by (simp add: findHeaderRowLoop_miss)
  moreover have "findHeaderRowLoop g (i + 1) = k"
    using Suc.hyps(1) [of "i + 1"] Suc.hyps(2) Suc.prems lt by simp
  ultimately show ?case by simp
qed

lemma findHeaderRowLoop_take:
  "findHeaderRowLoop (take 5 g) i = findHeaderRowLoop g i"
proof (induction "min 5 (length g) - i" arbitrary: i)
  case 0
  then have "min 5 (length g) \<le> i" by simp
  then have "findHeaderRowLoop g i = 0" "findHeaderRowLoop (take 5 g) i = 0"
    by (simp_all add: findHeaderRowLoop_stop)
  with "0.prems" show ?case by (simp add: neq_Nil_conv)
next
  case (Suc d)
  from Suc.hyps(2) have lt: "i < min 5 (length g)"
    and d: "d = min 5 (length g) - (i + 1)" by linarith+
  then have lt': "i < min 5 (length (take 5 g))" by simp
  from lt have nth: "take 5 g ! i = g ! i" by simp
  show ?case
  proof (cases "headerRule (g ! i)")
    case True
    with lt lt' nth show ?thesis by (simp add: findHeaderRowLoop_hit)
  next
    case False
    have "findHeaderRowLoop (take 5 g) (i + 1) = findHeaderRowLoop g (i + 1)"
      using Suc.hyps(1) [OF d] by simp
    with False lt lt' nth show ?thesis by (simp add: findHeaderRowLoop_miss)
  qed
qed

lemma findHeaderRowLoop_bound:
  "g \<noteq> [] \<Longrightarrow> findHeaderRowLoop g i < length g"
proof (induction "min 5 (length g) - i" arbitrary: i)
  case 0
  then have "min 5 (length g) \<le> i" by simp
  then have "findHeaderRowLoop g i = 0" "findHeaderRowLoop (take 5 g) i = 0"
    by (simp_all add: findHeaderRowLoop_stop)
  with "0.prems" show ?case by (simp add: neq_Nil_conv)
next
  case (Suc d)
  from Suc.hyps(2) have lt: "i < min 5 (length g)"
    and d: "d = min 5 (length g) - (i + 1)" by linarith+
  show ?case
  proof (cases "headerRule (g ! i)")
    case True
    with lt show ?thesis by (simp add: findHeaderRowLoop_hit)
  next
    case False
    have "findHeaderRowLoop g (i + 1) < length g"
      using Suc.hyps(1) [OF d] Suc.prems by simp
    with False lt show ?thesis by (simp add: findHeaderRowLoop_miss)
  qed
qed

lemma findHeaderRow_bound: "g \<noteq> [] \<Longrightarrow> findHeaderRow g < length g"
  by (simp add: findHeaderRow_def findHeaderRowLoop_bound)

text \<open>
  Claim C5. \<open>findHeaderRow\<close> looks at no more than the first five rows, in order, and
  returns the index of the first of them on which a header rule holds (at least two
  cells that are quarter labels, tested first, or at least three cells that are non-empty
  strings and not numbers); when no such row is among them it returns 0. A grid whose
  first row is \<open>["1Q24", "2Q24", "3Q24"]\<close> gives 0, before and after cleaning.
\<close>

theorem findHeaderRow_first_match:
  "(\<forall>k. k < min 5 (length g) \<and> headerRule (g ! k) \<and> (\<forall>j < k. \<not> headerRule (g ! j))
        \<longrightarrow> findHeaderRow g = k)
   \<and> ((\<forall>j < min 5 (length g). \<not> headerRule (g ! j)) \<longrightarrow> findHeaderRow g = 0)
   \<and> findHeaderRow g = findHeaderRow (take 5 g)
   \<and> findHeaderRow ([CStr ''1Q24'', CStr ''2Q24'', CStr ''3Q24''] # rest) = 0
   \<and> findHeaderRow (cleanGrid dateParse
        ([JStr ''1Q24'', JStr ''2Q24'', JStr ''3Q24''] # rows) rawFormulas numberFormats) = 0"
proof -
  have first: "\<forall>k. k < min 5 (length g) \<and> headerRule (g ! k) \<and> (\<forall>j < k. \<not> headerRule (g ! j))
        \<longrightarrow> findHeaderRow g = k"
    unfolding findHeaderRow_def using findHeaderRowLoop_first [of 0 _ g] by simp
  have none: "(\<forall>j < min 5 (length g). \<not> headerRule (g ! j)) \<longrightarrow> findHeaderRow g = 0"
    unfolding findHeaderRow_def using findHeaderRowLoop_none [of 0 g] by simp
  have five: "findHeaderRow g = findHeaderRow (take 5 g)"
    by (simp add: findHeaderRow_def findHeaderRowLoop_take)
  have q: "isQuarterCell (CStr ''1Q24'')" "isQuarterCell (CStr ''2Q24'')"
    by (simp_all add: isQuarterCell_def quarterPattern_def code_def canon_def isDigit_def char_of_def)
  have rule: "headerRule (CStr ''1Q24'' # CStr ''2Q24'' # cells)" for cells
    using q by (simp add: headerRule_def)
  have ex1: "findHeaderRow ([CStr ''1Q24'', CStr ''2Q24'', CStr ''3Q24''] # rest) = 0"
    unfolding findHeaderRow_def
    using findHeaderRowLoop_first [of 0 0 "[CStr ''1Q24'', CStr ''2Q24'', CStr ''3Q24''] # rest"] rule
    by simp
  have tr: "trim ''1Q24'' = ''1Q24''" "trim ''2Q24'' = ''2Q24''"
    by (simp_all add: trim_def isWhiteSpace_def code_def)
  have "\<exists>cells others. cleanGrid dateParse
        ([JStr ''1Q24'', JStr ''2Q24'', JStr ''3Q24''] # rows) rawFormulas numberFormats
          = (CStr ''1Q24'' # CStr ''2Q24'' # cells) # others"
    by (simp add: cleanGrid_def cleanCell_def tr)
  then obtain cells others where cg: "cleanGrid dateParse
        ([JStr ''1Q24'', JStr ''2Q24'', JStr ''3Q24''] # rows) rawFormulas numberFormats
          = (CStr ''1Q24'' # CStr ''2Q24'' # cells) # others" by blast
  have ex2: "findHeaderRow (cleanGrid dateParse
        ([JStr ''1Q24'', JStr ''2Q24'', JStr ''3Q24''] # rows) rawFormulas numberFormats) = 0"
    unfolding findHeaderRow_def cg
    using findHeaderRowLoop_first [of 0 0 "(CStr ''1Q24'' # CStr ''2Q24'' # cells) # others"] rule
    by simp
  from first none five ex1 ex2 show ?thesis by blast
qed


text \<open>A title row above the header row: the header is row 1.\<close>

theorem findHeaderRow_first_match_witness:
  "1 < min 5 (length [[CStr ''Quarterly report''], [CStr ''Label'', CStr ''1Q24'', CStr ''2Q24'']])
   \<and> headerRule ([[CStr ''Quarterly report''], [CStr ''Label'', CStr ''1Q24'', CStr ''2Q24'']] ! 1)
   \<and> \<not> headerRule ([[CStr ''Quarterly report''], [CStr ''Label'', CStr ''1Q24'', CStr ''2Q24'']] ! 0)
   \<and> findHeaderRow [[CStr ''Quarterly report''], [CStr ''Label'', CStr ''1Q24'', CStr ''2Q24'']] = 1"
proof -
  let ?g = "[[CStr ''Quarterly report''], [CStr ''Label'', CStr ''1Q24'', CStr ''2Q24'']]"
  have q: "isQuarterCell (CStr ''1Q24'')" "isQuarterCell (CStr ''2Q24'')"
    "\<not> isQuarterCell (CStr ''Quarterly report'')"
    by (simp_all add: isQuarterCell_def quarterPattern_def code_def canon_def isDigit_def char_of_def)
  have hit: "headerRule (?g ! 1)"
    using q by (simp add: headerRule_def)
  have miss: "\<not> headerRule (?g ! 0)"
    using q by (simp add: headerRule_def)
  have "\<forall>j < 1. \<not> headerRule (?g ! j)"
    using miss by simp
  moreover have "1 < min 5 (length ?g)" by simp
  moreover note hit
  ultimately have "findHeaderRow ?g = 1"
    using findHeaderRow_first_match [where g = ?g, THEN conjunct1, THEN spec, of 1]
    by blast
  with hit miss show ?thesis by simp
qed


section \<open>The row loop\<close>


subsection \<open>One turn of the row loop\<close>

lemma makeRowData_sel [simp]:
  "rowIndex (makeRowData i row) = i"
  "label (makeRowData i row) = rowLabelOf row"
  "rowValues (makeRowData i row) = map unwrap (drop 1 row)"
  "isTotal (makeRowData i row) = isLikelyTotalRow (rowLabelOf row)"
  "category (makeRowData i row) = categorizeRowLabel (rowLabelOf row)"
  by (simp_all add: makeRowData_def Let_def)

lemma processRow_columnHeaders [simp]:
  "columnHeaders (processRow p result) = columnHeaders result"
  by (cases p) (simp add: processRow_def Let_def)

lemma processRow_dataRows:
  "dataRows (processRow (i, row) result)
     = dataRows result @ (if keptRow row then [makeRowData i row] else [])"
  by (simp add: processRow_def Let_def keptRow_def)

lemma processRow_keyRows:
  "keyRows (processRow (i, row) result)
     = keyRows result
       @ (if keptRow row \<and> (isLikelyTotalRow (rowLabelOf row) \<or> isKeyFinancialRow (rowLabelOf row))
          then [makeRowData i row] else [])"
  by (simp add: processRow_def Let_def keptRow_def)

lemma processRow_totalRows:
  "totalRows (processRow (i, row) result)
     = totalRows result
       @ (if keptRow row \<and> isLikelyTotalRow (rowLabelOf row) then [makeRowData i row] else [])"
  by (simp add: processRow_def Let_def keptRow_def)

lemma processRow_quarterlyData:
  "quarterlyData (processRow (i, row) result)
     = quarterlyData result
       @ (if keptRow row \<and> hasQuarterlyPattern (columnHeaders result)
             \<and> quarters (extractQuarterlyData (makeRowData i row) (columnHeaders result)) \<noteq> []
          then [extractQuarterlyData (makeRowData i row) (columnHeaders result)] else [])"
  by (simp add: processRow_def Let_def keptRow_def)

subsection \<open>The whole loop\<close>

lemma fold_processRow_columnHeaders [simp]:
  "columnHeaders (fold processRow xs result) = columnHeaders result"
  by (induction xs arbitrary: result) simp_all

lemma fold_processRow_dataRows:
  "dataRows (fold processRow xs result)
     = dataRows result
       @ map (\<lambda>(i, row). makeRowData i row) (filter (\<lambda>(i, row). keptRow row) xs)"
  by (induction xs arbitrary: result) (auto simp: processRow_dataRows split: if_splits)

lemma fold_processRow_keyRows:
  "keyRows (fold processRow xs result)
     = keyRows result
       @ map (\<lambda>(i, row). makeRowData i row)
           (filter (\<lambda>(i, row). keptRow row
                      \<and> (isLikelyTotalRow (rowLabelOf row) \<or> isKeyFinancialRow (rowLabelOf row))) xs)"
  by (induction xs arbitrary: result) (auto simp: processRow_keyRows split: if_splits)

lemma fold_processRow_totalRows:
  "totalRows (fold processRow xs result)
     = totalRows result
       @ map (\<lambda>(i, row). makeRowData i row)
           (filter (\<lambda>(i, row). keptRow row \<and> isLikelyTotalRow (rowLabelOf row)) xs)"
  by (induction xs arbitrary: result) (auto simp: processRow_totalRows split: if_splits)

lemma fold_processRow_quarterlyData:
  "quarterlyData (fold processRow xs result)
     = quarterlyData result
       @ map (\<lambda>(i, row). extractQuarterlyData (makeRowData i row) (columnHeaders result))
           (filter (\<lambda>(i, row). keptRow row \<and> hasQuarterlyPattern (columnHeaders result)
               \<and> quarters (extractQuarterlyData (makeRowData i row) (columnHeaders result)) \<noteq> [])
             xs)"
  by (induction xs arbitrary: result) (auto simp: processRow_quarterlyData split: if_splits)

subsection \<open>The cleaned grid\<close>

lemma length_cleanGrid [simp]: "length (cleanGrid dp rv rf nf) = length rv"
  by (simp add: cleanGrid_def)

lemma cleanGrid_nth:
  "i < length rv \<Longrightarrow>
   cleanGrid dp rv rf nf ! i = map (cleanCell dp rf nf i) (enumerate 0 (rv ! i))"
  by (simp add: cleanGrid_def nth_enumerate_eq)

lemma rowLabelOf_clean:
  "i < length rv \<Longrightarrow> rowLabelOf (cleanGrid dp rv rf nf ! i) = labelOfRaw (rv ! i)"
proof -
  assume i: "i < length rv"
  show ?thesis
  proof (cases "rv ! i")
    case Nil
    with i show ?thesis by (simp add: cleanGrid_nth rowLabelOf_def labelOfRaw_def)
  next
    case (Cons v vs)
    with i show ?thesis
      by (cases v) (simp_all add: cleanGrid_nth rowLabelOf_def labelOfRaw_def cleanCell_def Let_def)
  qed
qed

text \<open>The analysis of a grid with at least one row never fails, and its row lists are
  the kept rows of the cleaned grid in order.\<close>

lemma analyze_table:
  fixes dp rv rf nf
  assumes "rv \<noteq> []"
  defines "clean \<equiv> cleanGrid dp rv rf nf"
  shows "\<exists>t. analyzeAdvancedTableStructure dp (Some rv) rf nf = Inr (FinancialTable t)
           \<and> rtype t = ''advanced_financial_table''
           \<and> headers t = []
           \<and> columnHeaders t = map unwrap (clean ! findHeaderRow clean)
           \<and> dataTypes t = analyzeDataTypes dp rv nf
           \<and> dataRows t = map (\<lambda>(i, row). makeRowData i row)
                 (filter (\<lambda>(i, row). keptRow row) (enumerate 0 clean))
           \<and> keyRows t = map (\<lambda>(i, row). makeRowData i row)
                 (filter (\<lambda>(i, row). keptRow row
                      \<and> (isLikelyTotalRow (rowLabelOf row) \<or> isKeyFinancialRow (rowLabelOf row)))
                   (enumerate 0 clean))
           \<and> totalRows t = map (\<lambda>(i, row). makeRowData i row)
                 (filter (\<lambda>(i, row). keptRow row \<and> isLikelyTotalRow (rowLabelOf row))
                   (enumerate 0 clean))
           \<and> quarterlyData t
               = map (\<lambda>(i, row). extractQuarterlyData (makeRowData i row) (columnHeaders t))
                  (filter (\<lambda>(i, row). keptRow row \<and> hasQuarterlyPattern (columnHeaders t)
                      \<and> quarters (extractQuarterlyData (makeRowData i row) (columnHeaders t)) \<noteq> [])
                    (enumerate 0 clean))"
proof -
  have "length clean = length rv" by (simp add: clean_def)
  with assms(1) have ne: "clean \<noteq> []" by auto
  then have h: "findHeaderRow clean < length clean"
    by (rule findHeaderRow_bound)
  define r0 where "r0 =
     \<lparr>rtype = ''advanced_financial_table'', headers = [],
      columnHeaders = map unwrap (clean ! findHeaderRow clean),
      dataRows = [], keyRows = [], totalRows = [], quarterlyData = [],
      rowLabels = [],
      formulaAnalysis = analyzeFormulas rf,
      formatAnalysis = analyzeNumberFormats nf,
      dataTypes = analyzeDataTypes dp rv nf\<rparr>"
  have eq: "analyzeAdvancedTableStructure dp (Some rv) rf nf
          = Inr (FinancialTable (fold processRow (enumerate 0 clean) r0))"
    using assms(1) h
    by (simp add: analyzeAdvancedTableStructure_def Let_def clean_def [symmetric] r0_def)
  have inv: "rtype (fold processRow xs r) = rtype r \<and> headers (fold processRow xs r) = headers r
            \<and> dataTypes (fold processRow xs r) = dataTypes r" for xs r
    by (induction xs arbitrary: r) (auto simp: processRow_def Let_def split: prod.splits)
  show ?thesis
    unfolding eq
    by (intro exI [of _ "fold processRow (enumerate 0 clean) r0"])
       (simp add: fold_processRow_dataRows fold_processRow_keyRows fold_processRow_totalRows
          fold_processRow_quarterlyData inv r0_def)
qed


subsection \<open>Blank labels, rows by index\<close>


lemma trim_blank: "(\<forall>c \<in> set s. isWhiteSpace c) \<Longrightarrow> trim s = []"
proof -
  assume "\<forall>c \<in> set s. isWhiteSpace c"
  then have d: "dropWhile isWhiteSpace s = []" by (induction s) auto
  show ?thesis unfolding trim_def d by simp
qed

lemma enumerate_member:
  "(i, row) \<in> set (enumerate 0 xs) \<Longrightarrow> i < length xs \<and> row = xs ! i"
  by (auto simp: in_set_enumerate_eq)


text \<open>Definitions to unfold when a concrete grid is evaluated.\<close>

lemmas label_eval = isLikelyTotalRow_def isLikelySubtotalRow_def isKeyFinancialRow_def
  categorizeRowLabel_def testAtStart_def testAnywhere_def totalKeywords_def subtotalKeywords_def
  keyPatterns_def canon_def code_def trim_def isWhiteSpace_def prefix_code sublist_code char_of_def
  bit_Suc_0_iff


subsection \<open>Kept rows\<close>


lemma dropWhile_id: "xs = [] \<or> \<not> P (hd xs) \<Longrightarrow> dropWhile P xs = xs"
  by (cases xs) auto

lemma trim_ends:
  "trim s = [] \<or> (\<not> isWhiteSpace (hd (trim s)) \<and> \<not> isWhiteSpace (last (trim s)))"
proof -
  define u where "u = dropWhile isWhiteSpace s"
  define b where "b = dropWhile isWhiteSpace (rev u)"
  have t: "trim s = rev b" by (simp add: trim_def u_def b_def)
  show ?thesis
  proof (cases "b = []")
    case True
    with t show ?thesis by simp
  next
    case False
    then have hb: "\<not> isWhiteSpace (hd b)"
      unfolding b_def by (rule hd_dropWhile)
    have "rev u = takeWhile isWhiteSpace (rev u) @ b"
      by (simp add: b_def)
    then have "u = rev b @ rev (takeWhile isWhiteSpace (rev u))"
      by (metis rev_append rev_rev_ident)
    with False have "hd u = hd (rev b)" by (metis hd_append2 rev_is_Nil_conv)
    moreover from False \<open>u = rev b @ _\<close> have "u \<noteq> []" by auto
    then have "\<not> isWhiteSpace (hd u)"
      unfolding u_def by (rule hd_dropWhile)
    ultimately have "\<not> isWhiteSpace (hd (rev b))" by simp
    moreover from False hb have "\<not> isWhiteSpace (last (rev b))" by (simp add: last_rev)
    ultimately show ?thesis using t by simp
  qed
qed

lemma trim_trim: "trim (trim s) = trim s"
proof (cases "trim s = []")
  case True
  show ?thesis unfolding True by (simp add: trim_def)
next
  case False
  with trim_ends [of s] have h: "\<not> isWhiteSpace (hd (trim s))"
    and l: "\<not> isWhiteSpace (last (trim s))" by simp_all
  from h have a: "dropWhile isWhiteSpace (trim s) = trim s"
    by (simp add: dropWhile_id)
  from l False have "\<not> isWhiteSpace (hd (rev (trim s)))" by (simp add: hd_rev)
  then have b: "dropWhile isWhiteSpace (rev (trim s)) = rev (trim s)"
    by (simp add: dropWhile_id)
  have "trim (trim s) = rev (dropWhile isWhiteSpace (rev (dropWhile isWhiteSpace (trim s))))"
    by (simp add: trim_def)
  also have "\<dots> = trim s" unfolding a b by simp
  finally show ?thesis .
qed

lemma labelOfRaw_string:
  "labelOfRaw row = JStr s \<Longrightarrow> trim s = s"
proof -
  have e: "trim [] = []" by (simp add: trim_def)
  assume "labelOfRaw row = JStr s"
  then show ?thesis
    by (auto simp: labelOfRaw_def trim_trim e split: list.splits jsval.splits)
qed

lemma kept_member:
  assumes "i < length clean" and "keptRow (clean ! i)" and "P (clean ! i)"
  shows "makeRowData i (clean ! i)
           \<in> set (map (\<lambda>(i, row). makeRowData i row)
                 (filter (\<lambda>(i, row). keptRow row \<and> P row) (enumerate 0 clean)))"
proof -
  from assms(1) have "(i, clean ! i) \<in> set (enumerate 0 clean)"
    by (simp add: in_set_enumerate_eq)
  with assms(2,3) show ?thesis by force
qed

lemma dropped_index:
  assumes "\<not> (keptRow (clean ! i) \<and> P (clean ! i))"
  shows "i \<notin> rowIndex ` set (map (\<lambda>(i, row). makeRowData i row)
                 (filter (\<lambda>(i, row). keptRow row \<and> P row) (enumerate 0 clean)))"
proof
  assume "i \<in> rowIndex ` set (map (\<lambda>(i, row). makeRowData i row)
                 (filter (\<lambda>(i, row). keptRow row \<and> P row) (enumerate 0 clean)))"
  then obtain j row where "(j, row) \<in> set (enumerate 0 clean)" "keptRow row" "P row"
    "i = rowIndex (makeRowData j row)" by auto
  then have "row = clean ! i" "keptRow row" "P row"
    using enumerate_member [of j row clean] by simp_all
  with assms show False by simp
qed

text \<open>What the analysis does with a row whose label is kept.\<close>

lemma kept_row_classified:
  fixes dp rv rf nf i
  defines "L \<equiv> labelOfRaw (rv ! i)"
  assumes i: "i < length rv" and kept: "truthy L"
  shows "\<exists>t r. analyzeAdvancedTableStructure dp (Some rv) rf nf = Inr (FinancialTable t)
           \<and> r \<in> set (dataRows t) \<and> rowIndex r = i \<and> label r = L
           \<and> isTotal r = isLikelyTotalRow L
           \<and> category r = (case L of JStr s \<Rightarrow> s | _ \<Rightarrow> ''data'')
           \<and> (isLikelyTotalRow L \<longrightarrow> r \<in> set (keyRows t) \<and> r \<in> set (totalRows t))
           \<and> (isKeyFinancialRow L \<longrightarrow> r \<in> set (keyRows t))
           \<and> (\<not> isLikelyTotalRow L \<longrightarrow> i \<notin> rowIndex ` set (totalRows t))
           \<and> (\<not> isLikelyTotalRow L \<and> \<not> isKeyFinancialRow L \<longrightarrow> i \<notin> rowIndex ` set (keyRows t))"
proof -
  define clean where "clean = cleanGrid dp rv rf nf"
  from i have ne: "rv \<noteq> []" by auto
  from analyze_table [OF ne, of dp rf nf]
  obtain t where t: "analyzeAdvancedTableStructure dp (Some rv) rf nf = Inr (FinancialTable t)"
    and d: "dataRows t = map (\<lambda>(i, row). makeRowData i row)
                 (filter (\<lambda>(i, row). keptRow row) (enumerate 0 clean))"
    and k: "keyRows t = map (\<lambda>(i, row). makeRowData i row)
                 (filter (\<lambda>(i, row). keptRow row
                      \<and> (isLikelyTotalRow (rowLabelOf row) \<or> isKeyFinancialRow (rowLabelOf row)))
                   (enumerate 0 clean))"
    and tt: "totalRows t = map (\<lambda>(i, row). makeRowData i row)
                 (filter (\<lambda>(i, row). keptRow row \<and> isLikelyTotalRow (rowLabelOf row))
                   (enumerate 0 clean))"
    unfolding clean_def by blast
  define r where "r = makeRowData i (clean ! i)"
  have lab: "rowLabelOf (clean ! i) = L"
    using i by (simp add: clean_def L_def rowLabelOf_clean)
  have len: "i < length clean" using i by (simp add: clean_def)
  from kept lab have kr: "keptRow (clean ! i)"
    by (auto simp: keptRow_def)
  have "r \<in> set (dataRows t)"
    using kept_member [OF len kr, of "\<lambda>row. True"] by (simp add: d r_def)
  moreover have "rowIndex r = i" "label r = L" "isTotal r = isLikelyTotalRow L"
    by (simp_all add: r_def lab)
  moreover have "category r = (case L of JStr s \<Rightarrow> s | _ \<Rightarrow> ''data'')"
  proof (cases L)
    case (JStr s)
    then have "trim s = s" unfolding L_def by (rule labelOfRaw_string)
    with JStr show ?thesis by (simp add: r_def lab categorizeRowLabel_def)
  qed (simp_all add: r_def lab categorizeRowLabel_def)
  moreover have "isLikelyTotalRow L \<longrightarrow> r \<in> set (keyRows t) \<and> r \<in> set (totalRows t)"
    using kept_member [OF len kr, of "\<lambda>row. isLikelyTotalRow (rowLabelOf row)"]
      kept_member [OF len kr,
        of "\<lambda>row. isLikelyTotalRow (rowLabelOf row) \<or> isKeyFinancialRow (rowLabelOf row)"]
    by (simp add: k tt r_def lab)
  moreover have "isKeyFinancialRow L \<longrightarrow> r \<in> set (keyRows t)"
    using kept_member [OF len kr,
        of "\<lambda>row. isLikelyTotalRow (rowLabelOf row) \<or> isKeyFinancialRow (rowLabelOf row)"]
    by (simp add: k r_def lab)
  moreover have "\<not> isLikelyTotalRow L \<longrightarrow> i \<notin> rowIndex ` set (totalRows t)"
    using dropped_index [of clean i "\<lambda>row. isLikelyTotalRow (rowLabelOf row)"]
    by (simp add: tt lab)
  moreover have "\<not> isLikelyTotalRow L \<and> \<not> isKeyFinancialRow L \<longrightarrow> i \<notin> rowIndex ` set (keyRows t)"
    using dropped_index [of clean i
        "\<lambda>row. isLikelyTotalRow (rowLabelOf row) \<or> isKeyFinancialRow (rowLabelOf row)"]
    by (simp add: k lab)
  ultimately show ?thesis using t by blast
qed


subsection \<open>Reading the result\<close>


lemma analyzed_rows:
  assumes "rv \<noteq> []"
  shows "dataRowsOf (projr (analyzeAdvancedTableStructure dp (Some rv) rf nf))
           = map (\<lambda>(i, row). makeRowData i row)
               (filter (\<lambda>(i, row). keptRow row) (enumerate 0 (cleanGrid dp rv rf nf)))"
    and "keyRowsOf (projr (analyzeAdvancedTableStructure dp (Some rv) rf nf))
           = map (\<lambda>(i, row). makeRowData i row)
               (filter (\<lambda>(i, row). keptRow row
                      \<and> (isLikelyTotalRow (rowLabelOf row) \<or> isKeyFinancialRow (rowLabelOf row)))
                 (enumerate 0 (cleanGrid dp rv rf nf)))"
    and "totalRowsOf (projr (analyzeAdvancedTableStructure dp (Some rv) rf nf))
           = map (\<lambda>(i, row). makeRowData i row)
               (filter (\<lambda>(i, row). keptRow row \<and> isLikelyTotalRow (rowLabelOf row))
                 (enumerate 0 (cleanGrid dp rv rf nf)))"
  using analyze_table [OF assms, of dp rf nf] by auto

lemmas clean_eval = cleanGrid_def cleanCell_def keptRow_def rowLabelOf_def formatAt_def
  formulaFlag_def detectCellType_def trim_def isWhiteSpace_def code_def

lemma example_labels:
  "isLikelyTotalRow (JStr ''Total Revenue'')"
  "isKeyFinancialRow (JStr ''Total Revenue'')"
  "\<not> isLikelyTotalRow (JStr ''Gross Margin %'')"
  "isKeyFinancialRow (JStr ''Gross Margin %'')"
  "\<not> isLikelyTotalRow (JStr ''Notes'')"
  "\<not> isKeyFinancialRow (JStr ''Notes'')"
  by (simp_all add: label_eval)


section \<open>Total rows and key rows\<close>

text \<open>
  Claim C2, as the code has it. For every row that is kept (its label is truthy after
  cleaning): the \<open>category\<close> field is the label itself, trimmed (\<open>'data'\<close> when the
  label is not a string), and never a tag total, key or plain of its own. When the label
  begins, whatever the case of its letters, with total, sum, grand total, net, aggregate
  or consolidated, \<open>isLikelyTotalRow\<close> and the row's \<open>isTotal\<close> are true and the row is in
  \<open>keyRows\<close> and in \<open>totalRows\<close>; when the label matches the key-financial words and is
  not a total, the row is in \<open>keyRows\<close> and not in \<open>totalRows\<close>; otherwise it is in
  neither.
\<close>

theorem row_label_classification:
  fixes dateParse rawValues rawFormulas numberFormats i
  defines "L \<equiv> labelOfRaw (rawValues ! i)"
  assumes "i < length rawValues" and "truthy L"
  shows "\<exists>t r. analyzeAdvancedTableStructure dateParse (Some rawValues) rawFormulas numberFormats
                 = Inr (FinancialTable t)
           \<and> r \<in> set (dataRows t) \<and> rowIndex r = i \<and> label r = L
           \<and> category r = (case L of JStr s \<Rightarrow> s | _ \<Rightarrow> ''data'')
           \<and> ((\<exists>s w rest. L = JStr s \<and> w \<in> set totalKeywords \<and> map canon s = map canon w @ rest)
                \<longrightarrow> isLikelyTotalRow L \<and> isTotal r \<and> r \<in> set (keyRows t) \<and> r \<in> set (totalRows t))
           \<and> (isKeyFinancialRow L \<and> \<not> isLikelyTotalRow L
                \<longrightarrow> r \<in> set (keyRows t) \<and> i \<notin> rowIndex ` set (totalRows t))
           \<and> (\<not> isKeyFinancialRow L \<and> \<not> isLikelyTotalRow L
                \<longrightarrow> i \<notin> rowIndex ` set (keyRows t) \<and> i \<notin> rowIndex ` set (totalRows t))"
proof -
  have begins: "isLikelyTotalRow L"
    if "\<exists>s w rest. L = JStr s \<and> w \<in> set totalKeywords \<and> map canon s = map canon w @ rest"
  proof -
    from that obtain s w rest where s: "L = JStr s" and w: "w \<in> set totalKeywords"
      and eq: "map canon s = map canon w @ rest" by blast
    from s have "trim s = s" unfolding L_def by (rule labelOfRaw_string)
    moreover from eq have "prefix (map canon w) (map canon s)" by (simp add: prefix_def)
    ultimately show ?thesis
      using s w by (auto simp: isLikelyTotalRow_def testAtStart_def list_ex_iff)
  qed
  from kept_row_classified [OF assms(2) assms(3) [unfolded L_def], of dateParse rawFormulas numberFormats]
  obtain t r where
    "analyzeAdvancedTableStructure dateParse (Some rawValues) rawFormulas numberFormats
       = Inr (FinancialTable t)"
    "r \<in> set (dataRows t)" "rowIndex r = i" "label r = L" "isTotal r = isLikelyTotalRow L"
    "category r = (case L of JStr s \<Rightarrow> s | _ \<Rightarrow> ''data'')"
    "isLikelyTotalRow L \<longrightarrow> r \<in> set (keyRows t) \<and> r \<in> set (totalRows t)"
    "isKeyFinancialRow L \<longrightarrow> r \<in> set (keyRows t)"
    "\<not> isLikelyTotalRow L \<longrightarrow> i \<notin> rowIndex ` set (totalRows t)"
    "\<not> isLikelyTotalRow L \<and> \<not> isKeyFinancialRow L \<longrightarrow> i \<notin> rowIndex ` set (keyRows t)"
    unfolding L_def [symmetric] by blast
  with begins show ?thesis by (intro exI [of _ t] exI [of _ r]) auto
qed


text \<open>A total row: its category is its label, and it is in all three lists.\<close>

theorem row_label_classification_witness:
  "(0::nat) < length [[JStr ''Total Revenue'', JNum (Fin 100)],
                      [JStr ''Gross Margin %'', JNum (Fin (2 / 5))]]
   \<and> labelOfRaw ([[JStr ''Total Revenue'', JNum (Fin 100)],
                   [JStr ''Gross Margin %'', JNum (Fin (2 / 5))]] ! 0) = JStr ''Total Revenue''
   \<and> truthy (JStr ''Total Revenue'')
   \<and> ''total'' \<in> set totalKeywords
   \<and> map canon ''Total Revenue'' = map canon ''total'' @ '' REVENUE''
   \<and> (\<exists>t r. analyzeAdvancedTableStructure noDates
                 (Some [[JStr ''Total Revenue'', JNum (Fin 100)],
                        [JStr ''Gross Margin %'', JNum (Fin (2 / 5))]]) None None
               = Inr (FinancialTable t)
            \<and> r \<in> set (dataRows t) \<and> rowIndex r = 0 \<and> category r = ''Total Revenue''
            \<and> isTotal r \<and> r \<in> set (keyRows t) \<and> r \<in> set (totalRows t))"
proof -
  let ?g = "[[JStr ''Total Revenue'', JNum (Fin 100)], [JStr ''Gross Margin %'', JNum (Fin (2 / 5))]]"
  have len: "(0::nat) < length ?g" by simp
  have lab: "labelOfRaw (?g ! 0) = JStr ''Total Revenue''"
    by (simp add: labelOfRaw_def trim_def isWhiteSpace_def code_def)
  have tr: "truthy (labelOfRaw (?g ! 0))" unfolding lab by simp
  have kw: "''total'' \<in> set totalKeywords" by (simp add: totalKeywords_def)
  have beg: "map canon ''Total Revenue'' = map canon ''total'' @ '' REVENUE''"
    by (simp add: canon_def code_def char_of_def bit_Suc_0_iff)
  from kw beg have hyp: "\<exists>s w rest. JStr ''Total Revenue'' = JStr s \<and> w \<in> set totalKeywords
           \<and> map canon s = map canon w @ rest" by blast
  from row_label_classification [OF len tr, of noDates None None]
  obtain t r where "analyzeAdvancedTableStructure noDates (Some ?g) None None = Inr (FinancialTable t)"
    "r \<in> set (dataRows t)" "rowIndex r = 0" "category r = ''Total Revenue''"
    "isTotal r" "r \<in> set (keyRows t)" "r \<in> set (totalRows t)"
    unfolding lab using hyp by auto
  with len lab kw beg show ?thesis by (intro conjI exI [of _ t] exI [of _ r]) simp_all
qed


text \<open>The category of a total row, of a key row and of any other row is its label, not
  the tag the claim names.\<close>

theorem category_is_label_counterexample:
  "isLikelyTotalRow (JStr ''Total Revenue'')
   \<and> isKeyFinancialRow (JStr ''Gross Margin %'') \<and> \<not> isLikelyTotalRow (JStr ''Gross Margin %'')
   \<and> \<not> isKeyFinancialRow (JStr ''Notes'') \<and> \<not> isLikelyTotalRow (JStr ''Notes'')
   \<and> map category (dataRowsOf (projr (analyzeAdvancedTableStructure noDates
          (Some [[JStr ''Total Revenue'', JNum (Fin 100)],
                 [JStr ''Gross Margin %'', JNum (Fin (2 / 5))],
                 [JStr ''Notes'', JNum (Fin 1)]]) None None)))
       = [''Total Revenue'', ''Gross Margin %'', ''Notes'']
   \<and> ''Total Revenue'' \<noteq> ''total'' \<and> ''Gross Margin %'' \<noteq> ''key'' \<and> ''Notes'' \<noteq> ''plain''"
proof -
  have "map category (dataRowsOf (projr (analyzeAdvancedTableStructure noDates
          (Some [[JStr ''Total Revenue'', JNum (Fin 100)],
                 [JStr ''Gross Margin %'', JNum (Fin (2 / 5))],
                 [JStr ''Notes'', JNum (Fin 1)]]) None None)))
       = [''Total Revenue'', ''Gross Margin %'', ''Notes'']"
    by (simp add: analyzed_rows clean_eval categorizeRowLabel_def)
  with example_labels show ?thesis by simp
qed


section \<open>Quarterly series\<close>



text \<open>The fallback of \<open>||\<close>: the parsed number is kept only when it is neither
  not-a-number nor zero.\<close>

lemma numericOrRaw_cases:
  "numericOrRaw v = (if parseFloat v = NaN \<or> parseFloat v = Fin 0 then v else JNum (parseFloat v))"
  by (simp add: numericOrRaw_def)

lemma quarterStep_append:
  "quarterStep rowData (j, h) acc
     = acc @ (if (case h of JStr s \<Rightarrow> quarterPattern s | _ \<Rightarrow> False)
                 \<and> valueBefore (rowValues rowData) j \<notin> {JNull, JUndefined, JStr []}
              then [\<lparr>quarter = toStringNonNum h,
                     pointValue = numericOrRaw (valueBefore (rowValues rowData) j),
                     columnIndex = j\<rparr>]
              else [])"
  by (cases h) (simp_all add: quarterStep_def Let_def)

lemma fold_quarterStep:
  "fold (quarterStep rowData) xs acc
     = acc @ map (\<lambda>(j, h). \<lparr>quarter = toStringNonNum h,
                            pointValue = numericOrRaw (valueBefore (rowValues rowData) j),
                            columnIndex = j\<rparr>)
             (filter (\<lambda>(j, h). (case h of JStr s \<Rightarrow> quarterPattern s | _ \<Rightarrow> False)
                        \<and> valueBefore (rowValues rowData) j \<notin> {JNull, JUndefined, JStr []}) xs)"
proof (induction xs arbitrary: acc)
  case Nil
  show ?case by simp
next
  case (Cons p xs)
  obtain j h where p: "p = (j, h)" by (cases p)
  show ?case
    unfolding p by (simp add: Cons.IH quarterStep_append)
qed

text \<open>The series of a row: one point for each header that is a quarter label and has a
  value under it, in the order of the columns.\<close>

lemma extractQuarterlyData_points:
  "quarters (extractQuarterlyData rowData hs)
     = map (\<lambda>(j, h). \<lparr>quarter = toStringNonNum h,
                      pointValue = numericOrRaw (valueBefore (rowValues rowData) j),
                      columnIndex = j\<rparr>)
         (filter (\<lambda>(j, h). (case h of JStr s \<Rightarrow> quarterPattern s | _ \<Rightarrow> False)
                    \<and> valueBefore (rowValues rowData) j \<notin> {JNull, JUndefined, JStr []})
            (enumerate 0 hs))"
  by (simp add: extractQuarterlyData_def Let_def fold_quarterStep)

lemmas quarter_eval = quarterPattern_def code_def canon_def isDigit_def char_of_def bit_Suc_0_iff
  valueBefore_def numericOrRaw_def parseFloat_def

text \<open>The example of the specification: numbers under two quarter labels.\<close>

lemma extractQuarterlyData_example:
  "rowValues rowData = [JNum (Fin 100), JNum (Fin 200)] \<Longrightarrow>
   quarters (extractQuarterlyData rowData [JStr ''Label'', JStr ''1Q23'', JStr ''2Q23''])
     = [\<lparr>quarter = ''1Q23'', pointValue = JNum (Fin 100), columnIndex = 1\<rparr>,
        \<lparr>quarter = ''2Q23'', pointValue = JNum (Fin 200), columnIndex = 2\<rparr>]"
  by (simp add: extractQuarterlyData_points quarter_eval)


text \<open>
  Claim C3, where the code departs from it. The text cells \<open>"0"\<close> and \<open>"0.00"\<close> under
  the quarter headers parse as the number 0, so \<open>parseFloat(value) || value\<close> falls back
  to the raw value: the points carry the strings, not the number the claim promises for
  a value that parses.
\<close>

theorem zero_string_stays_string:
  "parseFloat (JStr ''0'') = Fin 0
   \<and> parseFloat (JStr ''0.00'') = Fin 0
   \<and> quarters (extractQuarterlyData (makeRowData 1 [CStr ''Revenue'', CStr ''0'', CStr ''0.00''])
        [JStr ''Label'', JStr ''1Q23'', JStr ''2Q23''])
       = [\<lparr>quarter = ''1Q23'', pointValue = JStr ''0'', columnIndex = 1\<rparr>,
          \<lparr>quarter = ''2Q23'', pointValue = JStr ''0.00'', columnIndex = 2\<rparr>]"
proof -
  have a: "parseFloat (JStr ''0'') = Fin 0"
    by (simp add: parseFloat_def num_eval)
  have b: "parseFloat (JStr ''0.00'') = Fin 0"
    by (simp add: parseFloat_def num_eval)
  have "quarters (extractQuarterlyData (makeRowData 1 [CStr ''Revenue'', CStr ''0'', CStr ''0.00''])
        [JStr ''Label'', JStr ''1Q23'', JStr ''2Q23''])
       = [\<lparr>quarter = ''1Q23'', pointValue = JStr ''0'', columnIndex = 1\<rparr>,
          \<lparr>quarter = ''2Q23'', pointValue = JStr ''0.00'', columnIndex = 2\<rparr>]"
    using a b
    by (simp add: extractQuarterlyData_points quarterPattern_def code_def canon_def isDigit_def
          char_of_def bit_Suc_0_iff valueBefore_def numericOrRaw_def)
  with a b show ?thesis by simp
qed


section \<open>Rows without a label\<close>

text \<open>
  Claim C7. A row whose label in column 0 is the empty string or only white space is
  never materialised: the analysis returns, and no row of \<open>dataRows\<close>, \<open>keyRows\<close> or
  \<open>totalRows\<close> has that row's index.
\<close>

theorem blank_label_rows_dropped:
  assumes "i < length rawValues"
    and "rawValues ! i = JStr s # cells"
    and "\<forall>c \<in> set s. isWhiteSpace c"
  shows "\<exists>sd. analyzeAdvancedTableStructure dateParse (Some rawValues) rawFormulas numberFormats = Inr sd
           \<and> i \<notin> rowIndex ` set (dataRowsOf sd)
           \<and> i \<notin> rowIndex ` set (keyRowsOf sd)
           \<and> i \<notin> rowIndex ` set (totalRowsOf sd)"
proof -
  define clean where "clean = cleanGrid dateParse rawValues rawFormulas numberFormats"
  from assms(1) have ne: "rawValues \<noteq> []" by auto
  from analyze_table [OF ne, of dateParse rawFormulas numberFormats]
  obtain t where t: "analyzeAdvancedTableStructure dateParse (Some rawValues) rawFormulas numberFormats
          = Inr (FinancialTable t)"
    and d: "dataRows t = map (\<lambda>(i, row). makeRowData i row)
                 (filter (\<lambda>(i, row). keptRow row) (enumerate 0 clean))"
    and k: "keyRows t = map (\<lambda>(i, row). makeRowData i row)
                 (filter (\<lambda>(i, row). keptRow row
                      \<and> (isLikelyTotalRow (rowLabelOf row) \<or> isKeyFinancialRow (rowLabelOf row)))
                   (enumerate 0 clean))"
    and tt: "totalRows t = map (\<lambda>(i, row). makeRowData i row)
                 (filter (\<lambda>(i, row). keptRow row \<and> isLikelyTotalRow (rowLabelOf row))
                   (enumerate 0 clean))"
    unfolding clean_def by blast
  have "labelOfRaw (rawValues ! i) = JStr []"
    using assms(2,3) by (simp add: labelOfRaw_def trim_blank)
  then have "rowLabelOf (clean ! i) = JStr []"
    using assms(1) by (simp add: clean_def rowLabelOf_clean)
  then have drop: "\<not> keptRow (clean ! i)"
    by (simp add: keptRow_def)
  have no: "i \<notin> rowIndex ` set (map (\<lambda>(i, row). makeRowData i row)
                 (filter (\<lambda>(i, row). keptRow row \<and> P row) (enumerate 0 clean)))" for P
  proof
    assume "i \<in> rowIndex ` set (map (\<lambda>(i, row). makeRowData i row)
                 (filter (\<lambda>(i, row). keptRow row \<and> P row) (enumerate 0 clean)))"
    then obtain j row where "(j, row) \<in> set (enumerate 0 clean)" "keptRow row"
      "i = rowIndex (makeRowData j row)" by auto
    then have "row = clean ! i" "keptRow row"
      using enumerate_member [of j row clean] by simp_all
    with drop show False by simp
  qed
  from no [of "\<lambda>row. True"] have "i \<notin> rowIndex ` set (dataRows t)" by (simp add: d)
  moreover from no have "i \<notin> rowIndex ` set (keyRows t)" unfolding k .
  moreover from no have "i \<notin> rowIndex ` set (totalRows t)" unfolding tt .
  ultimately show ?thesis using t by simp
qed


text \<open>A grid whose second row has a label of two spaces: only row 0 is kept.\<close>

theorem blank_label_rows_dropped_witness:
  "(1::nat) < length [[JStr ''Revenue'', JNum (Fin 5)], [JStr ''  '', JNum (Fin 7)]]
   \<and> [[JStr ''Revenue'', JNum (Fin 5)], [JStr ''  '', JNum (Fin 7)]] ! 1 = JStr ''  '' # [JNum (Fin 7)]
   \<and> isWhiteSpace CHR '' ''
   \<and> (\<exists>sd. analyzeAdvancedTableStructure noDates
               (Some [[JStr ''Revenue'', JNum (Fin 5)], [JStr ''  '', JNum (Fin 7)]]) None None = Inr sd
           \<and> map rowIndex (dataRowsOf sd) = [0]
           \<and> 1 \<notin> rowIndex ` set (dataRowsOf sd)
           \<and> 1 \<notin> rowIndex ` set (keyRowsOf sd)
           \<and> 1 \<notin> rowIndex ` set (totalRowsOf sd))"
proof -
  let ?g = "[[JStr ''Revenue'', JNum (Fin 5)], [JStr ''  '', JNum (Fin 7)]]"
  have ws: "isWhiteSpace CHR '' ''" by (simp add: isWhiteSpace_def code_def)
  then have blank: "\<forall>c \<in> set ''  ''. isWhiteSpace c" by simp
  have a: "(1::nat) < length ?g" by simp
  have b: "?g ! 1 = JStr ''  '' # [JNum (Fin 7)]" by simp
  from blank_label_rows_dropped [OF a b blank, of noDates None None]
  obtain sd where sd: "analyzeAdvancedTableStructure noDates (Some ?g) None None = Inr sd"
    and no: "1 \<notin> rowIndex ` set (dataRowsOf sd)" "1 \<notin> rowIndex ` set (keyRowsOf sd)"
      "1 \<notin> rowIndex ` set (totalRowsOf sd)" by blast
  from analyze_table [of ?g noDates None None]
  obtain t where t: "analyzeAdvancedTableStructure noDates (Some ?g) None None = Inr (FinancialTable t)"
    and d: "dataRows t = map (\<lambda>(i, row). makeRowData i row)
                 (filter (\<lambda>(i, row). keptRow row) (enumerate 0 (cleanGrid noDates ?g None None)))"
    by auto
  have "map rowIndex (dataRows t) = [0]"
    unfolding d
    by (simp add: cleanGrid_def cleanCell_def keptRow_def rowLabelOf_def trim_def isWhiteSpace_def
          code_def formatAt_def)
  moreover from sd t have "sd = FinancialTable t" by simp
  ultimately have "map rowIndex (dataRowsOf sd) = [0]" by simp
  with ws a b sd no show ?thesis by (intro conjI exI [of _ sd]) simp_all
qed


section \<open>The empty grid\<close>

text \<open>
  Claim C8. For an absent grid (\<open>null\<close> or \<open>undefined\<close>) and for a grid with no row,
  \<open>analyzeAdvancedTableStructure\<close> returns, without an error, the result of type
  \<open>'empty'\<close> whose headers, data rows and key rows are empty.
\<close>

theorem empty_grid_gives_empty_table:
  "analyzeAdvancedTableStructure dateParse None rawFormulas numberFormats = Inr (EmptyTable [] [] [])
   \<and> analyzeAdvancedTableStructure dateParse (Some []) rawFormulas numberFormats
        = Inr (EmptyTable [] [] [])
   \<and> typeOf (EmptyTable [] [] []) = ''empty''
   \<and> headersOf (EmptyTable [] [] []) = []
   \<and> dataRowsOf (EmptyTable [] [] []) = []
   \<and> keyRowsOf (EmptyTable [] [] []) = []"
  by (simp add: analyzeAdvancedTableStructure_def)


section \<open>The header row as a data row\<close>

text \<open>The header row goes through the row loop like every other row.\<close>

lemma header_row_classified:
  fixes dp rv rf nf
  defines "h \<equiv> findHeaderRow (cleanGrid dp rv rf nf)"
  defines "L \<equiv> labelOfRaw (rv ! h)"
  assumes "rv \<noteq> []" and "truthy L"
  shows "h < length rv
       \<and> (\<exists>t r. analyzeAdvancedTableStructure dp (Some rv) rf nf = Inr (FinancialTable t)
             \<and> r \<in> set (dataRows t) \<and> rowIndex r = h \<and> label r = L
             \<and> (isLikelyTotalRow L \<longrightarrow> r \<in> set (keyRows t) \<and> r \<in> set (totalRows t))
             \<and> (isKeyFinancialRow L \<longrightarrow> r \<in> set (keyRows t)))"
proof -
  have "cleanGrid dp rv rf nf \<noteq> []"
    using assms(3) length_cleanGrid [of dp rv rf nf] by (metis length_0_conv)
  then have h: "h < length rv"
    unfolding h_def using findHeaderRow_bound [of "cleanGrid dp rv rf nf"] by simp
  from kept_row_classified [OF h assms(4) [unfolded L_def], of dp rf nf]
  show ?thesis using h unfolding L_def [symmetric] by blast
qed


text \<open>
  Claim C9, where the code departs from it. In the grid \<open>[[0, 10, 20], [1, 30, 40]]\<close> no
  row matches a header rule, so the header row is row 0. Its value in column 0 is the
  number 0, a cell that is not empty, yet the row loop skips it: \<open>!rowLabel\<close> is true
  for 0. Only row 1 is in \<open>dataRows\<close>.
\<close>

theorem zero_label_header_row_dropped:
  "findHeaderRow (cleanGrid noDates
       [[JNum (Fin 0), JNum (Fin 10), JNum (Fin 20)], [JNum (Fin 1), JNum (Fin 30), JNum (Fin 40)]]
       None None) = 0
   \<and> detectCellType noDates (JNum (Fin 0)) None = Number
   \<and> map rowIndex (dataRowsOf (projr (analyzeAdvancedTableStructure noDates
          (Some [[JNum (Fin 0), JNum (Fin 10), JNum (Fin 20)],
                 [JNum (Fin 1), JNum (Fin 30), JNum (Fin 40)]]) None None))) = [1]
   \<and> map label (dataRowsOf (projr (analyzeAdvancedTableStructure noDates
          (Some [[JNum (Fin 0), JNum (Fin 10), JNum (Fin 20)],
                 [JNum (Fin 1), JNum (Fin 30), JNum (Fin 40)]]) None None))) = [JNum (Fin 1)]"
proof -
  let ?g = "[[JNum (Fin 0), JNum (Fin 10), JNum (Fin 20)], [JNum (Fin 1), JNum (Fin 30), JNum (Fin 40)]]"
  have none: "\<not> headerRule (cleanGrid noDates ?g None None ! j)" if "j < 2" for j
  proof -
    from that have "j = 0 \<or> j = 1" by auto
    then show ?thesis
      by (auto simp: headerRule_def isQuarterCell_def isTextCell_def clean_eval)
  qed
  have "findHeaderRow (cleanGrid noDates ?g None None) = 0"
    using findHeaderRowLoop_none [of 0 "cleanGrid noDates ?g None None"] none
    by (simp add: findHeaderRow_def)
  moreover have "detectCellType noDates (JNum (Fin 0)) None = Number"
    by (simp add: detectCellType_def)
  moreover have "map rowIndex (dataRowsOf (projr (analyzeAdvancedTableStructure noDates
          (Some ?g) None None))) = [1]"
    by (simp add: analyzed_rows clean_eval)
  moreover have "map label (dataRowsOf (projr (analyzeAdvancedTableStructure noDates
          (Some ?g) None None))) = [JNum (Fin 1)]"
    by (simp add: analyzed_rows clean_eval)
  ultimately show ?thesis by simp
qed


section \<open>Round trip of the column letters\<close>

text \<open>
  The number \<open>2^53 + 2\<close> is a whole number that JavaScript holds exactly, but
  \<open>columnNumber - 1\<close> is \<open>2^53 + 1\<close>, which it does not hold: the difference is rounded
  to \<open>2^53\<close>. The letters are those of \<open>2^53 + 1\<close>, and reading them back, the last
  sum is rounded to \<open>2^53\<close>: the round trip does not return the number it started from.
\<close>

theorem column_letter_round_trip_counterexample:
  "getColumnLetter (Fin 9007199254740994) = Some ''BKTXHSOGHKKG''
   \<and> getColumnNumber ''BKTXHSOGHKKG'' = Fin 9007199254740992
   \<and> map_option getColumnNumber (getColumnLetter (Fin 9007199254740994))
       \<noteq> Some (Fin 9007199254740994)"
proof -
  have l: "getColumnLetter (Fin 9007199254740994) = Some ''BKTXHSOGHKKG''"
    by (simp add: getColumnLetter_def getColumnLetterLoop.simps num_eval truncInt_def
          char_of_def bit_Suc_0_iff)
  have n: "getColumnNumber ''BKTXHSOGHKKG'' = Fin 9007199254740992"
    by (simp add: getColumnNumber_def num_eval)
  from l n show ?thesis by simp
qed

text \<open>
  Claim C10, as the code has it. Reading back the letters of a column gives the column
  for every whole number \<open>n\<close> from 1 to \<open>2^53\<close>:
  \<open>getColumnNumber(getColumnLetter(n)) = n\<close>, and \<open>getColumnLetter(n)\<close> returns.
\<close>

theorem column_letter_round_trip:
  "1 \<le> n \<Longrightarrow> n \<le> 2 ^ 53 \<Longrightarrow>
   map_option getColumnNumber (getColumnLetter (Fin (of_int n))) = Some (Fin (of_int n))"
  by (simp add: getColumnLetter_exact getColumnNumber_lettersOf)

text \<open>Column 28 is \<open>AB\<close>; the round trip also holds at \<open>2^53\<close> itself.\<close>

theorem column_letter_round_trip_witness:
  "(1::int) \<le> 28 \<and> (28::int) \<le> 2 ^ 53
   \<and> getColumnLetter (Fin 28) = Some ''AB'' \<and> getColumnNumber ''AB'' = Fin 28
   \<and> map_option getColumnNumber (getColumnLetter (Fin 28)) = Some (Fin 28)
   \<and> map_option getColumnNumber (getColumnLetter (Fin 9007199254740992))
       = Some (Fin 9007199254740992)"
proof -
  have l: "getColumnLetter (Fin 28) = Some ''AB''"
    by (simp add: getColumnLetter_def getColumnLetterLoop.simps num_eval truncInt_def
          char_of_def bit_Suc_0_iff)
  from column_letter_round_trip [of 28]
  have r: "map_option getColumnNumber (getColumnLetter (Fin 28)) = Some (Fin 28)" by simp
  from column_letter_round_trip [of 9007199254740992]
  have b: "map_option getColumnNumber (getColumnLetter (Fin 9007199254740992))
             = Some (Fin 9007199254740992)" by simp
  from l r b show ?thesis by simp
qed

section \<open>Sampling\<close>


lemma floor_sqrt_budget: "nat \<lfloor>sqrt (real MAX_ANALYSIS_CELLS)\<rfloor> = 316"
proof -
  have lo: "(316::real) \<le> sqrt 100000"
    by (rule real_le_rsqrt) simp
  have hi: "sqrt 100000 < (317::real)"
    by (rule real_less_lsqrt) simp_all
  have "\<lfloor>sqrt (100000::real)\<rfloor> = 316"
    using lo hi by (simp add: floor_eq_iff)
  then show ?thesis by (simp add: MAX_ANALYSIS_CELLS_def)
qed

lemma digit_char:
  "d < 10 \<Longrightarrow> isDigit (char_of (48 + d)) \<and> digitVal (char_of (48 + d)) = d
     \<and> \<not> isUpper (char_of (48 + d)) \<and> char_of (48 + d) \<noteq> CHR '':''"
proof -
  assume d: "d < (10::nat)"
  then have c: "code (char_of (48 + d)) = 48 + d"
    by (simp add: code_def)
  have "char_of (48 + d) \<noteq> CHR '':''"
  proof
    assume "char_of (48 + d) = CHR '':''"
    then have "code (char_of (48 + d)) = code CHR '':''" by simp
    with c d show False by (simp add: code_def)
  qed
  with c d show ?thesis by (simp add: isDigit_def digitVal_def isUpper_def)
qed

lemma showNat_digits:
  "showNat n \<noteq> [] \<and> list_all isDigit (showNat n) \<and> decVal (showNat n) = n
     \<and> \<not> isUpper (hd (showNat n)) \<and> CHR '':'' \<notin> set (showNat n)"
proof (induction n rule: showNat.induct)
  case (1 n)
  show ?case
  proof (cases "n < 10")
    case True
    then have "showNat n = [char_of (48 + n)]" by (simp add: showNat.simps)
    with digit_char [OF True] show ?thesis by (auto simp: decVal_def)
  next
    case False
    then have s: "showNat n = showNat (n div 10) @ [char_of (48 + n mod 10)]"
      by (subst showNat.simps) simp
    have m: "n mod 10 < 10" by simp
    from "1.IH" False have ih: "showNat (n div 10) \<noteq> []" "list_all isDigit (showNat (n div 10))"
      "decVal (showNat (n div 10)) = n div 10" "\<not> isUpper (hd (showNat (n div 10)))"
      "CHR '':'' \<notin> set (showNat (n div 10))" by simp_all
    have "decVal (showNat n) = 10 * decVal (showNat (n div 10)) + digitVal (char_of (48 + n mod 10))"
      unfolding s decVal_def by simp
    with ih digit_char [OF m] have "decVal (showNat n) = n" by simp
    with ih digit_char [OF m] s show ?thesis by auto
  qed
qed

lemma cellRef_letters_digits:
  assumes "1 \<le> c"
  shows "cellRef (lettersOf c @ showNat n) = Some (c, n)"
proof -
  let ?l = "lettersOf c"
  have up: "list_all isUpper ?l"
    unfolding lettersOf_def using assms by (intro lettersLoop_upper) simp_all
  have ne: "?l \<noteq> []"
    unfolding lettersOf_def using assms by (intro lettersLoop_nonempty) simp
  from showNat_digits [of n] have d: "showNat n \<noteq> []" "list_all isDigit (showNat n)"
    "decVal (showNat n) = n" "\<not> isUpper (hd (showNat n))" by simp_all
  from up d have tw: "takeWhile isUpper (?l @ showNat n) = ?l"
    by (cases "showNat n") (simp_all add: list_all_iff)
  from up d have dw: "dropWhile isUpper (?l @ showNat n) = showNat n"
    by (cases "showNat n") (simp_all add: list_all_iff)
  have "numberOf ?l = c"
    using assms by (simp add: numberOf_lettersOf)
  with tw dw ne d show ?thesis by (simp add: cellRef_def Let_def)
qed

lemma resolve_sample_address:
  assumes "1 \<le> c"
  shows "resolveAddress (''A1:'' @ lettersOf (int c) @ showNat m) = Some ((1, 1), (int c, m))"
proof -
  let ?rest = "lettersOf (int c) @ showNat m"
  have first: "cellRef ''A1'' = Some (1, 1)"
    by (simp add: cellRef_def isUpper_def isDigit_def code_def numberOf_def decVal_def
          digitVal_def)
  have second: "cellRef ?rest = Some (int c, m)"
    using assms by (simp add: cellRef_letters_digits)
  have d: "dropWhile (\<lambda>c. c \<noteq> CHR '':'') (''A1:'' @ ?rest) = CHR '':'' # ?rest"
    by simp
  have t: "takeWhile (\<lambda>c. c \<noteq> CHR '':'') (''A1:'' @ ?rest) = ''A1''"
    by simp
  show ?thesis
    unfolding resolveAddress_def d t by (simp add: first second)
qed


lemma analyze_returns:
  "\<exists>sd. analyzeAdvancedTableStructure dp rv rf nf = Inr sd"
proof (cases rv)
  case None
  then show ?thesis by (simp add: analyzeAdvancedTableStructure_def)
next
  case (Some g)
  show ?thesis
  proof (cases "g = []")
    case True
    with Some show ?thesis by (simp add: analyzeAdvancedTableStructure_def)
  next
    case False
    from analyze_table [OF False, of dp rf nf] Some show ?thesis by blast
  qed
qed

lemma sample_size:
  fixes rows cols :: nat
  assumes "100001 \<le> rows * cols"
  defines "m \<equiv> min 316 rows"
  defines "c \<equiv> min (100000 div m) cols"
  shows "1 \<le> m \<and> 1 \<le> c \<and> m * c \<le> 100000"
proof -
  from assms(1) have r: "1 \<le> rows" by (cases rows) auto
  from assms(1) have k: "1 \<le> cols" by (cases cols) auto
  from r have m: "1 \<le> m" "m \<le> 316" by (simp_all add: m_def)
  then have "316 * m \<le> 100000" by simp
  then have "316 \<le> 100000 div m" using m
    by (metis div_le_mono div_mult_self_is_m less_eq_Suc_le One_nat_def)
  with k have c: "1 \<le> c" by (simp add: c_def)
  have "m * c \<le> m * (100000 div m)" by (simp add: c_def)
  also have "\<dots> \<le> 100000" by simp
  finally show ?thesis using m c by simp
qed

lemma getSmartSampledRange_eq:
  assumes "100001 \<le> rowCount r * columnCount r"
  defines "m \<equiv> min 316 (rowCount r)"
  defines "c \<equiv> min (100000 div m) (columnCount r)"
  shows "getSmartSampledRange ws r
           = Some ((getRange ws (''A1:'' @ lettersOf (int c) @ showNat m))
                     \<lparr>originalSize := Some (rowCount r, columnCount r)\<rparr>)"
proof -
  from sample_size [OF assms(1)] have "1 \<le> m" by (simp add: m_def)
  then have m0: "m \<noteq> 0" by simp
  have "c \<le> 100000 div m" by (simp add: c_def)
  also have "\<dots> \<le> 100000" by simp
  finally have "int c \<le> 2 ^ 53" by simp
  then have "getColumnLetter (Fin (of_int (int c))) = Some (lettersOf (int c))"
    by (rule getColumnLetter_exact)
  then have l: "getColumnLetter (Fin (of_nat c)) = Some (lettersOf (int c))" by simp
  have cc: "min c (columnCount r) = c" by (simp add: c_def)
  show ?thesis
    unfolding getSmartSampledRange_def Let_def floor_sqrt_budget
    unfolding MAX_ANALYSIS_CELLS_def m_def [symmetric]
    using m0 l by (simp add: c_def [symmetric] cc)
qed

text \<open>The sample does not depend on where the range it replaces lies: its address
  always starts at \<open>A1\<close> of the worksheet.\<close>

lemma sample_ignores_address:
  "getSmartSampledRange ws (r\<lparr>address := a\<rparr>) = getSmartSampledRange ws r"
  by (simp add: getSmartSampledRange_def)

text \<open>
  The rule of the reader. It considers the selection when it is asked for and valid, the
  used range otherwise. With at most 100,000 cells the range is kept whole and not marked
  as sampled. With 100,001 cells or more it is replaced by the range at the address
  \<open>A1:<column><rows>\<close>, where \<open>rows = min(floor(sqrt(100000)), rowCount)\<close>, which is
  \<open>min(316, rowCount)\<close>, and the column is the letter of
  \<open>min(floor(100000 / rows), colCount)\<close>: that many rows and columns from cell \<open>A1\<close> of
  the worksheet, at least one cell and at most 100,000. The grid of the range that was
  chosen is the one that is classified.
\<close>

lemma sampling_rule:
  fixes ws sel useSel r isSel dateParse
  assumes "(useSel \<and> selectionIsValid sel = Inr True \<and> r = sel \<and> isSel)
         \<or> ((\<not> useSel \<or> selectionIsValid sel = Inr False) \<and> getUsedRange ws = Some r \<and> \<not> isSel)"
  defines "m \<equiv> min (nat \<lfloor>sqrt (real 100000)\<rfloor>) (rowCount r)"
  defines "c \<equiv> min (100000 div m) (columnCount r)"
  defines "a \<equiv> ''A1:'' @ lettersOf (int c) @ showNat m"
  shows "(rowCount r * columnCount r \<le> 100000
            \<longrightarrow> chooseRange ws sel useSel = Some (Inr (Some r, isSel, False)))
       \<and> (100001 \<le> rowCount r * columnCount r
            \<longrightarrow> chooseRange ws sel useSel
                  = Some (Inr (Some ((getRange ws a)
                                       \<lparr>originalSize := Some (rowCount r, columnCount r)\<rparr>),
                               isSel, True))
                \<and> m = min 316 (rowCount r) \<and> 1 \<le> m \<and> 1 \<le> c \<and> m * c \<le> 100000
                \<and> resolveAddress a = Some ((1, 1), (int c, m)))
       \<and> (\<forall>chosen s b. chooseRange ws sel useSel = Some (Inr (Some chosen, s, b))
              \<and> rowCount chosen \<noteq> 0 \<and> columnCount chosen \<noteq> 0
            \<longrightarrow> (\<exists>sd. analyzeAdvancedTableStructure dateParse (Some (rangeValues chosen))
                          (Some (rangeFormulas chosen)) (Some (numberFormat chosen)) = Inr sd
                    \<and> readCurrentWorksheetDataEnhanced dateParse ws sel useSel
                        = Some (Inr \<lparr>worksheetName = wsName ws, analysed = Some chosen,
                               structuredData = sd, isSelection = s, isSampled = b\<rparr>)))"
proof -
  have sq: "nat \<lfloor>sqrt (100000::real)\<rfloor> = 316"
    using floor_sqrt_budget by (simp add: MAX_ANALYSIS_CELLS_def)
  have m: "m = min 316 (rowCount r)" by (simp add: m_def sq)
  have small: "chooseRange ws sel useSel = Some (Inr (Some r, isSel, False))"
    if "rowCount r * columnCount r \<le> 100000"
    using assms(1) that by (auto simp: chooseRange_def MAX_ANALYSIS_CELLS_def Let_def)
  have big: "chooseRange ws sel useSel
               = Some (Inr (Some ((getRange ws a)
                                    \<lparr>originalSize := Some (rowCount r, columnCount r)\<rparr>),
                            isSel, True))
             \<and> m = min 316 (rowCount r) \<and> 1 \<le> m \<and> 1 \<le> c \<and> m * c \<le> 100000
             \<and> resolveAddress a = Some ((1, 1), (int c, m))"
    if b: "100001 \<le> rowCount r * columnCount r"
  proof -
    have s: "getSmartSampledRange ws r
               = Some ((getRange ws a)\<lparr>originalSize := Some (rowCount r, columnCount r)\<rparr>)"
      using getSmartSampledRange_eq [OF b, of ws] by (simp add: a_def c_def m)
    have ch: "chooseRange ws sel useSel
                = Some (Inr (Some ((getRange ws a)
                                     \<lparr>originalSize := Some (rowCount r, columnCount r)\<rparr>),
                             isSel, True))"
      using assms(1) b s by (auto simp: chooseRange_def MAX_ANALYSIS_CELLS_def Let_def)
    from sample_size [OF b] have sz: "1 \<le> m" "1 \<le> c" "m * c \<le> 100000"
      by (simp_all add: m c_def)
    from sz(2) have "resolveAddress a = Some ((1, 1), (int c, m))"
      unfolding a_def by (rule resolve_sample_address)
    with ch m sz show ?thesis by simp
  qed
  have an: "\<exists>sd. analyzeAdvancedTableStructure dateParse (Some (rangeValues chosen))
                          (Some (rangeFormulas chosen)) (Some (numberFormat chosen)) = Inr sd
                    \<and> readCurrentWorksheetDataEnhanced dateParse ws sel useSel
                        = Some (Inr \<lparr>worksheetName = wsName ws, analysed = Some chosen,
                               structuredData = sd, isSelection = s, isSampled = b\<rparr>)"
    if "chooseRange ws sel useSel = Some (Inr (Some chosen, s, b))"
      "rowCount chosen \<noteq> 0" "columnCount chosen \<noteq> 0" for chosen s b
  proof -
    from analyze_returns obtain sd where
      "analyzeAdvancedTableStructure dateParse (Some (rangeValues chosen))
          (Some (rangeFormulas chosen)) (Some (numberFormat chosen)) = Inr sd" by blast
    with that show ?thesis by (simp add: readCurrentWorksheetDataEnhanced_def)
  qed
  from small big an show ?thesis by blast
qed


text \<open>A used range of 1000 rows and 200 columns is replaced by \<open>A1:GR316\<close>, 316 rows
  of 200 columns; one of 3 rows and 2 columns is kept.\<close>

lemma sampling_rule_example:
  "getUsedRange (exampleSheet (exampleRange ''Sheet1!A1:GR1000'' 1000 200))
     = Some (exampleRange ''Sheet1!A1:GR1000'' 1000 200)
   \<and> (100001::nat) \<le> 1000 * 200
   \<and> chooseRange (exampleSheet (exampleRange ''Sheet1!A1:GR1000'' 1000 200))
        (exampleRange ''Sheet1!A1:GR1000'' 1000 200) False
       = Some (Inr (Some ((getRange (exampleSheet (exampleRange ''Sheet1!A1:GR1000'' 1000 200)) ''A1:GR316'')
                      \<lparr>originalSize := Some (1000, 200)\<rparr>), False, True))
   \<and> resolveAddress ''A1:GR316'' = Some ((1, 1), (200, 316))
   \<and> rowCount (getRange (exampleSheet (exampleRange ''Sheet1!A1:GR1000'' 1000 200)) ''A1:GR316'') = 316
   \<and> columnCount (getRange (exampleSheet (exampleRange ''Sheet1!A1:GR1000'' 1000 200)) ''A1:GR316'') = 200
   \<and> getUsedRange (exampleSheet (exampleRange ''Sheet1!A1:B3'' 3 2))
     = Some (exampleRange ''Sheet1!A1:B3'' 3 2)
   \<and> (3::nat) * 2 \<le> 100000
   \<and> chooseRange (exampleSheet (exampleRange ''Sheet1!A1:B3'' 3 2))
        (exampleRange ''Sheet1!A1:B3'' 3 2) False
       = Some (Inr (Some (exampleRange ''Sheet1!A1:B3'' 3 2), False, False))"
proof -
  let ?big = "exampleRange ''Sheet1!A1:GR1000'' 1000 200"
  let ?small = "exampleRange ''Sheet1!A1:B3'' 3 2"
  have sq: "nat \<lfloor>sqrt (100000::real)\<rfloor> = 316"
    using floor_sqrt_budget by (simp add: MAX_ANALYSIS_CELLS_def)
  have letter: "lettersOf 200 = ''GR''"
    by (simp add: lettersOf_def lettersLoop.simps char_of_def)
  have digits: "showNat 316 = ''316''"
    by (simp add: showNat.simps char_of_def bit_Suc_0_iff)
  have ub: "getUsedRange (exampleSheet ?big) = Some ?big"
    and us: "getUsedRange (exampleSheet ?small) = Some ?small"
    by (simp_all add: exampleSheet_def)
  have hb: "(False \<and> selectionIsValid ?big = Inr True \<and> ?big = ?big \<and> False)
         \<or> ((\<not> False \<or> selectionIsValid ?big = Inr False)
              \<and> getUsedRange (exampleSheet ?big) = Some ?big \<and> \<not> False)"
    using ub by simp
  have hs: "(False \<and> selectionIsValid ?small = Inr True \<and> ?small = ?small \<and> False)
         \<or> ((\<not> False \<or> selectionIsValid ?small = Inr False)
              \<and> getUsedRange (exampleSheet ?small) = Some ?small \<and> \<not> False)"
    using us by simp
  have cb: "rowCount ?big = 1000" "columnCount ?big = 200"
    and cs: "rowCount ?small = 3" "columnCount ?small = 2"
    by (simp_all add: exampleRange_def)
  from sampling_rule [OF hb, of noDates, THEN conjunct2, THEN conjunct1]
  have big: "chooseRange (exampleSheet ?big) ?big False
       = Some (Inr (Some ((getRange (exampleSheet ?big) ''A1:GR316'')\<lparr>originalSize := Some (1000, 200)\<rparr>),
              False, True))
     \<and> resolveAddress ''A1:GR316'' = Some ((1, 1), (200, 316))"
    by (simp add: cb sq letter digits)
  from sampling_rule [OF hs, of noDates, THEN conjunct1]
  have small: "chooseRange (exampleSheet ?small) ?small False
                 = Some (Inr (Some ?small, False, False))"
    by (simp add: cs)
  from big have res: "resolveAddress ''A1:GR316'' = Some ((1, 1), (200, 316))" by simp
  have dims: "rowCount (getRange (exampleSheet ?big) ''A1:GR316'') = 316"
    "columnCount (getRange (exampleSheet ?big) ''A1:GR316'') = 200"
    by (simp_all add: exampleSheet_def res exampleRange_def)
  from ub us big small dims show ?thesis by simp
qed


text \<open>
  Claim C6, where the code departs from it. The threshold and the two sizes are as the
  claim says, but the block that is returned is not taken from the range that was too
  large: the address asked of the worksheet always starts at \<open>A1\<close>. For the selection
  \<open>D10:D100010\<close>, one column of 100,001 rows, the range that is classified is \<open>A1:A316\<close>,
  316 cells of column A, none of which is in the selection, whose top-left block of
  that size is \<open>D10:D325\<close>.
\<close>

theorem sample_outside_selection:
  "selectionIsValid (exampleRange ''Sheet1!D10:D100010'' 100001 1) = Inr True
   \<and> resolveAddress (localAddress (address (exampleRange ''Sheet1!D10:D100010'' 100001 1)))
       = Some ((4, 10), (4, 100010))
   \<and> chooseRange (exampleSheet (exampleRange ''Sheet1!A1:D100010'' 100010 4))
        (exampleRange ''Sheet1!D10:D100010'' 100001 1) True
       = Some (Inr (Some ((exampleRange ''A1:A316'' 316 1)\<lparr>originalSize := Some (100001, 1)\<rparr>),
                    True, True))
   \<and> resolveAddress ''A1:A316'' = Some ((1, 1), (1, 316))"
proof -
  let ?sel = "exampleRange ''Sheet1!D10:D100010'' 100001 1"
  let ?used = "exampleRange ''Sheet1!A1:D100010'' 100010 4"
  have letter: "getColumnLetter (Fin 1) = Some ''A''"
    by (simp add: getColumnLetter_def getColumnLetterLoop.simps num_eval truncInt_def
          char_of_def bit_Suc_0_iff)
  have digits: "showNat 316 = ''316''"
    by (simp add: showNat.simps char_of_def bit_Suc_0_iff)
  have sel: "rowCount ?sel = 100001" "columnCount ?sel = 1"
    "address ?sel = ''Sheet1!D10:D100010''"
    by (simp_all add: exampleRange_def)
  have valid: "selectionIsValid ?sel = Inr True"
    unfolding selectionIsValid_def sel by simp
  have res: "resolveAddress ''A1:A316'' = Some ((1, 1), (1, 316))"
    by (simp add: resolveAddress_def cellRef_def isUpper_def isDigit_def code_def numberOf_def
          decVal_def digitVal_def)
  have own: "resolveAddress (localAddress ''Sheet1!D10:D100010'') = Some ((4, 10), (4, 100010))"
    by (simp add: localAddress_def resolveAddress_def cellRef_def isUpper_def isDigit_def
          code_def numberOf_def decVal_def digitVal_def)
  have block: "getRange (exampleSheet ?used) ''A1:A316'' = exampleRange ''A1:A316'' 316 1"
    by (simp add: exampleSheet_def res)
  have smp: "getSmartSampledRange (exampleSheet ?used) ?sel
               = Some ((exampleRange ''A1:A316'' 316 1)\<lparr>originalSize := Some (100001, 1)\<rparr>)"
    unfolding getSmartSampledRange_def Let_def floor_sqrt_budget sel
    by (simp add: MAX_ANALYSIS_CELLS_def letter digits block)
  have "chooseRange (exampleSheet ?used) ?sel True
          = Some (Inr (Some ((exampleRange ''A1:A316'' 316 1)\<lparr>originalSize := Some (100001, 1)\<rparr>),
                       True, True))"
    unfolding chooseRange_def Let_def valid sel smp
    by (simp add: MAX_ANALYSIS_CELLS_def)
  with valid own res sel(3) show ?thesis by simp
qed

end
